theory Spec2Isabelle
  imports Complex_Main "HOL-Library.Word" "HOL-Library.Log_Nat"
begin

section \<open>USB Charge Controller: the data model\<close>

text \<open>
  The sketch \<^verbatim>\<open>USB_Charge_Controller.ino\<close> keeps its whole state in one global struct
  \<^verbatim>\<open>state\<close>, two file-scope variables of the debounce gate and three function-static
  variables. Every one of them is a field of the record \<open>unit_state\<close> below, with the
  initial value the sketch gives it.
\<close>

datatype ChargeState = S_MANUAL | S_CHARGING | S_DISABLED | S_QUIESCENT

text \<open>
  The C \<^verbatim>\<open>int\<close> fields are HOL integers: the sketch compares and copies them, and
  where it subtracts two of them the model wraps the difference to 32 bits (\<open>int32\<close>
  below).
  \<^verbatim>\<open>time_t\<close> values (seconds) are integers as well. \<^verbatim>\<open>uint32_t\<close> values are 32-bit
  words, so \<^verbatim>\<open>savedRuntime +=\<close> and the differences of \<^verbatim>\<open>millis()\<close> wrap as on the
  device; a \<^verbatim>\<open>time_t\<close> difference that meets a \<^verbatim>\<open>uint32_t\<close> is converted to 32 bits
  first, as C++ does on the ESP8266, where \<^verbatim>\<open>time_t\<close> is a 32-bit \<^verbatim>\<open>long\<close>. The \<^verbatim>\<open>float\<close>
  field is a rational number that is always the result of a rounding to single precision
  (section \<open>Floating point\<close>).
\<close>

record unit_state =
  start :: int                       \<comment> \<open>\<^verbatim>\<open>state.start\<close>, seconds since midnight\<close>
  stop :: int                        \<comment> \<open>\<^verbatim>\<open>state.stop\<close>\<close>
  menuSelection :: "8 word"          \<comment> \<open>\<^verbatim>\<open>state.menuSelection\<close>\<close>
  chargeState :: ChargeState         \<comment> \<open>\<^verbatim>\<open>state.chargeState\<close>\<close>
  lastChargeState :: ChargeState     \<comment> \<open>\<^verbatim>\<open>state.lastChargeState\<close>\<close>
  manual :: bool                     \<comment> \<open>\<^verbatim>\<open>state.manual\<close>\<close>
  disable :: bool                    \<comment> \<open>\<^verbatim>\<open>state.disable\<close>\<close>
  charging :: bool                   \<comment> \<open>\<^verbatim>\<open>state.charging\<close>, drives the MOSFET\<close>
  runtimeStart :: int                \<comment> \<open>\<^verbatim>\<open>state.runtimeStart\<close>, a \<^verbatim>\<open>time_t\<close>\<close>
  chargeProgress :: rat              \<comment> \<open>\<^verbatim>\<open>state.chargeProgress\<close>, a \<^verbatim>\<open>float\<close>\<close>
  savedRuntime :: "32 word"          \<comment> \<open>\<^verbatim>\<open>state.savedRuntime\<close>\<close>
  debounce :: bool                   \<comment> \<open>file scope, \<^verbatim>\<open>volatile bool debounce\<close>\<close>
  debounceStart :: "32 word"         \<comment> \<open>file scope, \<^verbatim>\<open>volatile uint32_t debounceStart\<close>\<close>
  counterEnabled :: bool             \<comment> \<open>static local of \<^verbatim>\<open>powerManagement\<close>\<close>
  lastPressManual :: "32 word"       \<comment> \<open>static \<^verbatim>\<open>lastPress\<close> of \<^verbatim>\<open>BLYNK_WRITE(MANUAL_OVERRIDE)\<close>\<close>
  lastPressDisable :: "32 word"      \<comment> \<open>static \<^verbatim>\<open>lastPress\<close> of \<^verbatim>\<open>BLYNK_WRITE(FORCE_DISABLE)\<close>\<close>

definition initial_state :: unit_state where
  "initial_state =
     \<lparr> start = 0, stop = 6 * 3600, menuSelection = 1,
       chargeState = S_QUIESCENT, lastChargeState = S_QUIESCENT,
       manual = False, disable = False, charging = False,
       runtimeStart = 0, chargeProgress = 0, savedRuntime = 0,
       debounce = True, debounceStart = 0, counterEnabled = False,
       lastPressManual = 0, lastPressDisable = 0 \<rparr>"

subsection \<open>Calls to the dashboard\<close>

text \<open>
  The Blynk library is not part of the repository. A call to it is recorded as a value
  of \<open>blynk_call\<close>; every function of the model returns the calls it made, in order.
  \<open>PElapsed h m s\<close> stands for the buffer that
  \<^verbatim>\<open>sprintf(buf, "Elapsed %02d:%02d:%02d", h, m, s)\<close> fills. \<open>PUndefined\<close> stands for the
  \<^verbatim>\<open>int\<close> that a cast of an out-of-range floating-point value yields: C++ leaves it
  undefined, and the model says nothing about it.
\<close>

datatype vpin = STATUS_LED | MENU | SCHEDULE | PROGRESS_BAR | MANUAL_OVERRIDE
  | FORCE_DISABLE | MANUAL_RUNTIME

datatype param = PBool bool | PInt int | PInt2 int int | PStr string | PElapsed int int int
  | PUndefined

datatype blynk_call = setColor string | setLabel string | virtualWrite vpin param

definition BLYNK_RED :: string where "BLYNK_RED = ''#D3435C''"
definition BLYNK_YELLOW :: string where "BLYNK_YELLOW = ''#ED9D00''"
definition BLYNK_GREEN :: string where "BLYNK_GREEN = ''#23C48E''"
definition BLYNK_BLUE :: string where "BLYNK_BLUE = ''#04C0F8''"

definition BLYNK_DEBOUNCE_TIME :: "32 word" where "BLYNK_DEBOUNCE_TIME = 1000"
definition DEBOUNCE_TIME :: "32 word" where "DEBOUNCE_TIME = 250"

section \<open>Floating point\<close>

text \<open>
  Line 336 computes the progress in binary floating point. \<open>fl p x\<close> is \<open>x\<close> rounded to
  the nearest number with a significand of \<open>p\<close> bits, ties to the even significand:
  \<open>p = 24\<close> is \<^verbatim>\<open>float\<close>, \<open>p = 53\<close> is \<^verbatim>\<open>double\<close>. The exponent is not bounded; the
  numbers line 336 handles (at most \<open>2\<^sup>3\<^sup>2\<close> seconds over at least one second, times one
  hundred) are far from the overflow and underflow thresholds of both formats.
\<close>

definition pow2 :: "int \<Rightarrow> rat" where
  "pow2 e = (if 0 \<le> e then 2 ^ nat e else 1 / 2 ^ nat (- e))"

definition ilog2 :: "rat \<Rightarrow> int" where
  "ilog2 x = (let (a, b) = quotient_of x; k = bitlen a - bitlen b
              in if pow2 k \<le> x then k else k - 1)"

definition round_half_even :: "rat \<Rightarrow> int" where
  "round_half_even q =
     (let f = \<lfloor>q\<rfloor>; r = q - of_int f
      in if r < 1 / 2 then f else if 1 / 2 < r then f + 1
         else if even f then f else f + 1)"

definition fl :: "nat \<Rightarrow> rat \<Rightarrow> rat" where
  "fl p x =
     (if x = 0 then 0
      else let u = pow2 (ilog2 \<bar>x\<bar> - int p + 1)
           in sgn x * of_int (round_half_even (\<bar>x\<bar> / u)) * u)"

definition f32 :: "rat \<Rightarrow> rat" where "f32 = fl 24"
definition f64 :: "rat \<Rightarrow> rat" where "f64 = fl 53"

text \<open>
  \<^verbatim>\<open>static_cast<int>\<close> of a floating-point value truncates towards zero. The result is
  defined only when the truncated value is a 32-bit \<^verbatim>\<open>int\<close>; \<open>None\<close> is the undefined cast.
\<close>

definition float_to_int :: "rat \<Rightarrow> int option" where
  "float_to_int x =
     (let t = (if 0 \<le> x then \<lfloor>x\<rfloor> else \<lceil>x\<rceil>)
      in if - (2 ^ 31) \<le> t \<and> t < 2 ^ 31 then Some t else None)"

text \<open>
  The value a 32-bit two's-complement \<^verbatim>\<open>int\<close> (or \<^verbatim>\<open>long\<close>) holds after a subtraction whose
  exact result is \<open>k\<close>: \<open>k\<close> itself when it fits, \<open>k\<close> wrapped around otherwise.
\<close>

definition int32 :: "int \<Rightarrow> int" where
  "int32 k = sint (word_of_int k :: 32 word)"

text \<open>
  The expression of line 336. Its numerator is the \<^verbatim>\<open>uint32_t\<close> sum
  \<^verbatim>\<open>now() - state.runtimeStart + state.savedRuntime\<close>, its denominator the \<^verbatim>\<open>int\<close>
  \<^verbatim>\<open>scheduledSeconds\<close>; both are converted to \<^verbatim>\<open>float\<close> and divided in \<^verbatim>\<open>float\<close>, the
  quotient is multiplied by the \<^verbatim>\<open>double\<close> constant \<^verbatim>\<open>100.0\<close> in \<^verbatim>\<open>double\<close>, and the
  product is stored in the \<^verbatim>\<open>float\<close> field.
\<close>

definition progress_percent :: "32 word \<Rightarrow> int \<Rightarrow> rat" where
  "progress_percent n scheduledSeconds =
     f32 (f64 (f32 (f32 (of_nat (unat n)) / f32 (of_int scheduledSeconds)) * 100))"

text \<open>C's integer division and remainder truncate towards zero.\<close>

definition c_div :: "int \<Rightarrow> int \<Rightarrow> int" where
  "c_div a b = sgn a * sgn b * (\<bar>a\<bar> div \<bar>b\<bar>)"

definition c_mod :: "int \<Rightarrow> int \<Rightarrow> int" where
  "c_mod a b = a - b * c_div a b"

section \<open>The debounce gate\<close>

text \<open>
  \<^verbatim>\<open>manualOverride\<close> (lines 163--170) is the interrupt handler of the push button; its
  second argument is the value \<^verbatim>\<open>millis()\<close> returns in it. \<open>loop_debounce\<close> is the first
  statement of \<^verbatim>\<open>loop\<close> (lines 593--596). The handler is modelled as running between
  two statements of the loop, never inside one.
\<close>

definition manualOverride :: "unit_state \<Rightarrow> 32 word \<Rightarrow> unit_state" where
  "manualOverride s millis =
     (if \<not> debounce s
      then s\<lparr>debounce := True, debounceStart := millis, manual := \<not> manual s\<rparr>
      else s)"

definition loop_debounce :: "unit_state \<Rightarrow> 32 word \<Rightarrow> unit_state" where
  "loop_debounce s millis =
     (if debounce s \<and> millis - debounceStart s > DEBOUNCE_TIME
      then s\<lparr>debounce := False\<rparr>
      else s)"

text \<open>
  A history of the gate: button edges and loop iterations, each with its reading of
  \<^verbatim>\<open>millis()\<close>. \<open>run_gate\<close> replays a history; \<open>flips\<close> counts the edges of the history
  that toggled \<^verbatim>\<open>state.manual\<close>.
\<close>

datatype gate_event = Edge "32 word" | Loop "32 word"

fun gate_step :: "unit_state \<Rightarrow> gate_event \<Rightarrow> unit_state" where
  "gate_step s (Edge t) = manualOverride s t"
| "gate_step s (Loop t) = loop_debounce s t"

fun run_gate :: "unit_state \<Rightarrow> gate_event list \<Rightarrow> unit_state" where
  "run_gate s [] = s"
| "run_gate s (e # es) = run_gate (gate_step s e) es"

fun flips :: "unit_state \<Rightarrow> gate_event list \<Rightarrow> nat" where
  "flips s [] = 0"
| "flips s (e # es) =
     (if manual (gate_step s e) \<noteq> manual s then 1 else 0) + flips (gate_step s e) es"

text \<open>The last statement of \<^verbatim>\<open>loop\<close> that concerns the charger: the MOSFET pin.\<close>

datatype level = LOW | HIGH

definition loop_ENABLE :: "unit_state \<Rightarrow> level" where
  "loop_ENABLE s = (if charging s then HIGH else LOW)"

section \<open>The handlers of the dashboard\<close>

text \<open>
  \<^verbatim>\<open>BLYNK_WRITE(SCHEDULE)\<close>, lines 411--439. \<^verbatim>\<open>TimeInputParam\<close> belongs to the Blynk
  library; what the handler reads of it is the record \<open>time_input\<close>: the two flags
  \<^verbatim>\<open>hasStartTime()\<close> and \<^verbatim>\<open>hasStopTime()\<close> and the two integers \<^verbatim>\<open>param[0].asInt()\<close>
  and \<^verbatim>\<open>param[1].asInt()\<close>.
\<close>

record time_input =
  hasStartTime :: bool
  hasStopTime :: bool
  param0 :: int
  param1 :: int

definition BLYNK_WRITE_SCHEDULE :: "unit_state \<Rightarrow> time_input \<Rightarrow> unit_state \<times> blynk_call list" where
  "BLYNK_WRITE_SCHEDULE s p =
     (let s1 = (if hasStartTime p \<and> param0 p \<noteq> - 1 then s\<lparr>start := param0 p\<rparr> else s);
          s2 = (if hasStopTime p \<and> param1 p \<noteq> - 1 then s1\<lparr>stop := param1 p\<rparr> else s1);
          s3 = (if stop s2 < start s2
                then (let temp = start s2;
                          s2a = s2\<lparr>start := stop s2\<rparr>
                      in s2a\<lparr>start := temp\<rparr>)
                else s2)
      in (s3\<lparr>menuSelection := 4\<rparr>, [virtualWrite MENU (PInt 4)]))"

text \<open>\<^verbatim>\<open>BLYNK_WRITE(MENU)\<close>, lines 445--477; the argument is \<^verbatim>\<open>param.asInt()\<close>.\<close>

definition BLYNK_WRITE_MENU :: "unit_state \<Rightarrow> int \<Rightarrow> unit_state \<times> blynk_call list" where
  "BLYNK_WRITE_MENU s v =
     (let s1 = s\<lparr>menuSelection := word_of_int v\<rparr>;
          s2 = (if menuSelection s1 = 1 then s1\<lparr>start := 0, stop := 6 * 3600\<rparr>
                else if menuSelection s1 = 2 then s1\<lparr>start := 0, stop := 8 * 3600\<rparr>
                else if menuSelection s1 = 3 then s1\<lparr>start := 0, stop := 10 * 3600\<rparr>
                else s1)
      in (s2, [virtualWrite SCHEDULE (PInt2 (start s2) (stop s2))]))"

text \<open>
  \<^verbatim>\<open>BLYNK_WRITE(MANUAL_OVERRIDE)\<close> and \<^verbatim>\<open>BLYNK_WRITE(FORCE_DISABLE)\<close>, lines 484--510;
  the second argument is the reading of \<^verbatim>\<open>millis()\<close>.
\<close>

definition BLYNK_WRITE_MANUAL_OVERRIDE :: "unit_state \<Rightarrow> 32 word \<Rightarrow> unit_state \<times> blynk_call list" where
  "BLYNK_WRITE_MANUAL_OVERRIDE s millis =
     (if millis - lastPressManual s > BLYNK_DEBOUNCE_TIME
      then (s\<lparr>lastPressManual := millis, manual := \<not> manual s\<rparr>, [])
      else (s, []))"

definition BLYNK_WRITE_FORCE_DISABLE :: "unit_state \<Rightarrow> 32 word \<Rightarrow> unit_state \<times> blynk_call list" where
  "BLYNK_WRITE_FORCE_DISABLE s millis =
     (if millis - lastPressDisable s > BLYNK_DEBOUNCE_TIME
      then (s\<lparr>disable := \<not> disable s, lastPressDisable := millis\<rparr>,
            [virtualWrite FORCE_DISABLE (PBool (\<not> disable s))])
      else (s, []))"

section \<open>powerManagement\<close>

text \<open>
  \<^verbatim>\<open>powerManagement\<close> (lines 239--350) reads the clock at three places. A tick of the
  model gets the three readings: \<open>hour\<close>, \<open>minute\<close> and \<open>second\<close> are what TimeLib's
  \<^verbatim>\<open>hour()\<close>, \<^verbatim>\<open>minute()\<close> and \<^verbatim>\<open>second()\<close> return for \<^verbatim>\<open>timeNow\<close> (line 247);
  \<open>nowSession\<close> is the value of \<^verbatim>\<open>now()\<close> at line 254, 272 or 310, of which a tick
  executes at most one; \<open>nowReport\<close> is the value of \<^verbatim>\<open>now()\<close> at line 336 or 341.
\<close>

record clock =
  hour :: int
  minute :: int
  second :: int
  nowSession :: int
  nowReport :: int

definition currentTimeinSecs :: "clock \<Rightarrow> int" where
  "currentTimeinSecs c = 3600 * hour c + 60 * minute c + second c"

text \<open>
  The block every branch has: when the new state differs from \<^verbatim>\<open>lastChargeState\<close>,
  remember it and update the dashboard.
\<close>

definition on_change :: "unit_state \<Rightarrow> blynk_call list \<Rightarrow> unit_state \<times> blynk_call list" where
  "on_change s calls =
     (if chargeState s \<noteq> lastChargeState s
      then (s\<lparr>lastChargeState := chargeState s\<rparr>, calls)
      else (s, []))"

text \<open>Lines 251--268: inside the charging window.\<close>

definition branch_charging :: "unit_state \<Rightarrow> clock \<Rightarrow> unit_state \<times> blynk_call list" where
  "branch_charging s c =
     (let s1 = (if \<not> counterEnabled s
                then s\<lparr>counterEnabled := True, runtimeStart := nowSession c\<rparr> else s);
          s2 = s1\<lparr>chargeState := S_CHARGING\<rparr>;
          (s3, out) = on_change s2
             [setColor BLYNK_GREEN, setLabel ''ON'',
              virtualWrite MANUAL_OVERRIDE (PBool False),
              virtualWrite MANUAL_RUNTIME (PStr '' '')]
      in (s3\<lparr>charging := True, manual := False\<rparr>, out))"

text \<open>Lines 270--285: outside the window, manual override set.\<close>

definition branch_manual :: "unit_state \<Rightarrow> clock \<Rightarrow> unit_state \<times> blynk_call list" where
  "branch_manual s c =
     (let (s1, out0) = (if \<not> counterEnabled s
                then (s\<lparr>counterEnabled := True, runtimeStart := nowSession c\<rparr>,
                      [virtualWrite PROGRESS_BAR (PInt 0)])
                else (s, []));
          s2 = s1\<lparr>chargeState := S_MANUAL\<rparr>;
          (s3, out) = on_change s2
             [setColor BLYNK_BLUE, setLabel ''MAN'',
              virtualWrite MANUAL_OVERRIDE (PBool True),
              virtualWrite MANUAL_RUNTIME (PStr '' '')]
      in (s3\<lparr>charging := True, savedRuntime := 0\<rparr>, out0 @ out))"

text \<open>Lines 287--303: outside the window, no override.\<close>

definition branch_quiescent :: "unit_state \<Rightarrow> unit_state \<times> blynk_call list" where
  "branch_quiescent s =
     (let s2 = s\<lparr>chargeState := S_QUIESCENT\<rparr>;
          (s3, out) = on_change s2
             [setColor BLYNK_RED, setLabel ''OFF'',
              virtualWrite MANUAL_OVERRIDE (PBool False),
              virtualWrite MANUAL_RUNTIME (PStr '' '')]
      in (s3\<lparr>counterEnabled := False, charging := False, savedRuntime := 0\<rparr>, out))"

text \<open>Lines 306--325: forcibly disabled.\<close>

definition branch_disabled :: "unit_state \<Rightarrow> clock \<Rightarrow> unit_state \<times> blynk_call list" where
  "branch_disabled s c =
     (let s1 = (if chargeState s = S_CHARGING
                then s\<lparr>savedRuntime := savedRuntime s + word_of_int (nowSession c - runtimeStart s)\<rparr>
                else s);
          s2 = s1\<lparr>chargeState := S_DISABLED\<rparr>;
          (s3, out) = on_change s2
             [setColor BLYNK_YELLOW, setLabel ''DSBLD'',
              virtualWrite MANUAL_OVERRIDE (PBool False),
              virtualWrite MANUAL_RUNTIME (PStr '' '')]
      in (s3\<lparr>counterEnabled := False, charging := False, manual := False\<rparr>, out))"

text \<open>Lines 331--345: the progress bar while charging, the elapsed time in manual mode.\<close>

definition report :: "unit_state \<Rightarrow> clock \<Rightarrow> unit_state \<times> blynk_call list" where
  "report s c =
     (if charging s then
        (if chargeState s = S_CHARGING then
           (let scheduledSeconds = int32 (stop s - start s);
                s1 = s\<lparr>chargeProgress :=
                        progress_percent (word_of_int (nowReport c - runtimeStart s) + savedRuntime s)
                          scheduledSeconds\<rparr>
            in (s1, [virtualWrite PROGRESS_BAR
                       (case float_to_int (chargeProgress s1) of
                          Some i \<Rightarrow> PInt i | None \<Rightarrow> PUndefined)]))
         else if chargeState s = S_MANUAL then
           (let runtime = int32 (nowReport c - runtimeStart s)
            in (s, [virtualWrite MANUAL_RUNTIME
                      (PElapsed (c_div runtime 3600) (c_div (c_mod runtime 3600) 60)
                         (c_mod runtime 60))]))
         else (s, []))
      else (s, []))"

definition powerManagement :: "unit_state \<Rightarrow> clock \<Rightarrow> unit_state \<times> blynk_call list" where
  "powerManagement s c =
     (let (s1, out1) =
            (if \<not> disable s then
               (if currentTimeinSecs c \<ge> start s \<and> currentTimeinSecs c < stop s
                then branch_charging s c
                else if manual s then branch_manual s c
                else branch_quiescent s)
             else branch_disabled s c);
          (s2, out2) = report s1 c
      in (s2, out1 @ out2))"

text \<open>
  A run of ticks: \<^verbatim>\<open>timer.run()\<close> calls \<^verbatim>\<open>powerManagement\<close> every 5000 ms, each time with
  new readings of the clock.
\<close>

fun ticks :: "unit_state \<Rightarrow> clock list \<Rightarrow> unit_state" where
  "ticks s [] = s"
| "ticks s (c # cs) = ticks (fst (powerManagement s c)) cs"

text \<open>The calls to the dashboard that such a run makes, in order.\<close>

fun ticks_calls :: "unit_state \<Rightarrow> clock list \<Rightarrow> blynk_call list" where
  "ticks_calls s [] = []"
| "ticks_calls s (c # cs) =
     snd (powerManagement s c) @ ticks_calls (fst (powerManagement s c)) cs"

text \<open>
  The calls a tick makes on the status LED and on the manual-override button of the
  dashboard: the sketch makes them only inside the four blocks guarded by
  \<^verbatim>\<open>state.chargeState != state.lastChargeState\<close>.
\<close>

definition state_change_calls :: "blynk_call list \<Rightarrow> blynk_call list" where
  "state_change_calls out =
     filter (\<lambda>x. case x of setColor _ \<Rightarrow> True | setLabel _ \<Rightarrow> True
                   | virtualWrite v _ \<Rightarrow> v = MANUAL_OVERRIDE) out"

text \<open>
  The progress as section 4.4 of the specification words it,
  \<open>(elapsed-in-session + savedSeconds) / (stop - start) \<times> 100\<close>, computed exactly over the
  rationals; \<open>now\<close> is the reading of the clock. The sketch's own computation is
  \<open>progress_percent\<close>.
\<close>

definition spec_progress_percent :: "unit_state \<Rightarrow> int \<Rightarrow> rat" where
  "spec_progress_percent s now =
     of_int (now - runtimeStart s + uint (savedRuntime s)) / of_int (stop s - start s) * 100"

section \<open>Properties\<close>

lemmas pm_defs = powerManagement_def branch_charging_def branch_manual_def
  branch_quiescent_def branch_disabled_def report_def on_change_def Let_def

subsection \<open>What one tick does to each field\<close>

lemma pm_chargeState:
  "chargeState (fst (powerManagement s c)) =
     (if disable s then S_DISABLED
      else if start s \<le> currentTimeinSecs c \<and> currentTimeinSecs c < stop s then S_CHARGING
      else if manual s then S_MANUAL else S_QUIESCENT)"
  by (simp add: pm_defs split: prod.splits)

lemma pm_lastChargeState:
  "lastChargeState (fst (powerManagement s c)) = chargeState (fst (powerManagement s c))"
  by (simp add: pm_defs split: prod.splits)

lemma pm_frame:
  "disable (fst (powerManagement s c)) = disable s"
  "start (fst (powerManagement s c)) = start s"
  "stop (fst (powerManagement s c)) = stop s"
  "lastPressDisable (fst (powerManagement s c)) = lastPressDisable s"
  by (simp_all add: pm_defs split: prod.splits)

lemma pm_manual:
  "manual (fst (powerManagement s c)) =
     (\<not> disable s \<and> \<not> (start s \<le> currentTimeinSecs c \<and> currentTimeinSecs c < stop s)
      \<and> manual s)"
  by (simp add: pm_defs split: prod.splits)

lemma pm_charging:
  "charging (fst (powerManagement s c)) =
     (\<not> disable s \<and> ((start s \<le> currentTimeinSecs c \<and> currentTimeinSecs c < stop s) \<or> manual s))"
  by (simp add: pm_defs split: prod.splits)

lemma pm_counterEnabled:
  "counterEnabled (fst (powerManagement s c)) =
     (\<not> disable s \<and> ((start s \<le> currentTimeinSecs c \<and> currentTimeinSecs c < stop s) \<or> manual s))"
  by (simp add: pm_defs split: prod.splits)

lemma pm_runtimeStart:
  "runtimeStart (fst (powerManagement s c)) =
     (if \<not> disable s \<and> ((start s \<le> currentTimeinSecs c \<and> currentTimeinSecs c < stop s) \<or> manual s)
         \<and> \<not> counterEnabled s
      then nowSession c else runtimeStart s)"
  by (auto simp: pm_defs split: prod.splits)

lemma pm_savedRuntime:
  "savedRuntime (fst (powerManagement s c)) =
     (if disable s
      then (if chargeState s = S_CHARGING
            then savedRuntime s + word_of_int (nowSession c - runtimeStart s)
            else savedRuntime s)
      else if start s \<le> currentTimeinSecs c \<and> currentTimeinSecs c < stop s then savedRuntime s
      else 0)"
  by (simp add: pm_defs split: prod.splits)

lemma pm_chargeProgress:
  "chargeProgress (fst (powerManagement s c)) =
     (if \<not> disable s \<and> start s \<le> currentTimeinSecs c \<and> currentTimeinSecs c < stop s
      then progress_percent
             (word_of_int (nowReport c - runtimeStart (fst (powerManagement s c)))
                + savedRuntime (fst (powerManagement s c)))
             (int32 (stop s - start s))
      else chargeProgress s)"
  by (simp add: pm_defs split: prod.splits)

lemma pm_state_change_calls:
  "state_change_calls (snd (powerManagement s c)) =
     (if chargeState (fst (powerManagement s c)) = lastChargeState s then []
      else (case chargeState (fst (powerManagement s c)) of
              S_MANUAL \<Rightarrow> [setColor BLYNK_BLUE, setLabel ''MAN'',
                           virtualWrite MANUAL_OVERRIDE (PBool True)]
            | S_CHARGING \<Rightarrow> [setColor BLYNK_GREEN, setLabel ''ON'',
                           virtualWrite MANUAL_OVERRIDE (PBool False)]
            | S_DISABLED \<Rightarrow> [setColor BLYNK_YELLOW, setLabel ''DSBLD'',
                           virtualWrite MANUAL_OVERRIDE (PBool False)]
            | S_QUIESCENT \<Rightarrow> [setColor BLYNK_RED, setLabel ''OFF'',
                           virtualWrite MANUAL_OVERRIDE (PBool False)]))"
  by (simp add: pm_defs state_change_calls_def split: prod.splits)

lemma pm_progress_call:
  "\<not> disable s \<Longrightarrow> start s \<le> currentTimeinSecs c \<and> currentTimeinSecs c < stop s \<Longrightarrow>
   [v. virtualWrite PROGRESS_BAR v \<leftarrow> snd (powerManagement s c)] =
     [case float_to_int (chargeProgress (fst (powerManagement s c))) of
        Some i \<Rightarrow> PInt i | None \<Rightarrow> PUndefined]"
  by (simp add: pm_defs split: prod.splits)

subsection \<open>Runs of ticks\<close>

lemma ticks_snoc: "ticks s (cs @ [c]) = fst (powerManagement (ticks s cs) c)"
  by (induction cs arbitrary: s) auto

lemma ticks_disabled:
  "disable s \<Longrightarrow> chargeState s = S_DISABLED \<Longrightarrow>
     disable (ticks s cs) \<and> chargeState (ticks s cs) = S_DISABLED
   \<and> savedRuntime (ticks s cs) = savedRuntime s
   \<and> start (ticks s cs) = start s \<and> stop (ticks s cs) = stop s"
proof (induction cs arbitrary: s)
  case Nil
  then show ?case by simp
next
  case (Cons c cs)
  have "disable (fst (powerManagement s c))" "chargeState (fst (powerManagement s c)) = S_DISABLED"
    using Cons.prems by (simp_all add: pm_frame pm_chargeState)
  from Cons.IH [OF this] show ?case
    using Cons.prems by (simp add: pm_savedRuntime pm_frame)
qed

lemma ticks_in_window:
  "\<not> disable s \<Longrightarrow> counterEnabled s \<Longrightarrow>
   \<forall>c\<in>set cs. start s \<le> currentTimeinSecs c \<and> currentTimeinSecs c < stop s \<Longrightarrow>
     \<not> disable (ticks s cs) \<and> counterEnabled (ticks s cs)
   \<and> runtimeStart (ticks s cs) = runtimeStart s
   \<and> savedRuntime (ticks s cs) = savedRuntime s
   \<and> start (ticks s cs) = start s \<and> stop (ticks s cs) = stop s"
proof (induction cs arbitrary: s)
  case Nil
  then show ?case by simp
next
  case (Cons c cs)
  let ?s = "fst (powerManagement s c)"
  have c: "start s \<le> currentTimeinSecs c \<and> currentTimeinSecs c < stop s"
    using Cons.prems(3) by simp
  have 1: "\<not> disable ?s" "counterEnabled ?s"
    using Cons.prems(1) c by (simp_all add: pm_frame pm_counterEnabled)
  have 2: "\<forall>c\<in>set cs. start ?s \<le> currentTimeinSecs c \<and> currentTimeinSecs c < stop ?s"
    using Cons.prems(3) by (simp add: pm_frame)
  from Cons.IH [OF 1 2] show ?case
    using Cons.prems(1,2) c by (simp add: pm_frame pm_runtimeStart pm_savedRuntime)
qed

lemma ticks_in_window_progress:
  assumes "\<not> disable s" "counterEnabled s" "cs \<noteq> []"
    and "\<forall>c\<in>set cs. start s \<le> currentTimeinSecs c \<and> currentTimeinSecs c < stop s"
  shows "chargeState (ticks s cs) = S_CHARGING
       \<and> chargeProgress (ticks s cs) =
           progress_percent (word_of_int (nowReport (last cs) - runtimeStart s) + savedRuntime s)
             (int32 (stop s - start s))"
proof -
  from assms(3) obtain bs c where cs: "cs = bs @ [c]"
    by (metis append_butlast_last_id)
  let ?s = "ticks s bs"
  have inv: "\<not> disable ?s \<and> counterEnabled ?s \<and> runtimeStart ?s = runtimeStart s
     \<and> savedRuntime ?s = savedRuntime s \<and> start ?s = start s \<and> stop ?s = stop s"
    using assms(1,2,4) by (intro ticks_in_window) (simp_all add: cs)
  have c: "start s \<le> currentTimeinSecs c \<and> currentTimeinSecs c < stop s"
    using assms(4) by (simp add: cs)
  show ?thesis
    using inv c
    by (simp add: cs ticks_snoc pm_chargeState pm_chargeProgress pm_runtimeStart pm_savedRuntime)
qed

lemma ticks_frame:
  "disable (ticks s cs) = disable s \<and> start (ticks s cs) = start s \<and> stop (ticks s cs) = stop s"
  by (induction cs arbitrary: s) (simp_all add: pm_frame)

lemma ticks_calls_snoc:
  "ticks_calls s (cs @ [c]) = ticks_calls s cs @ snd (powerManagement (ticks s cs) c)"
  by (induction cs arbitrary: s) simp_all

lemma last_progress_call:
  assumes "\<not> disable s" "cs \<noteq> []"
    and "start s \<le> currentTimeinSecs (last cs) \<and> currentTimeinSecs (last cs) < stop s"
  shows "last [v. virtualWrite PROGRESS_BAR v \<leftarrow> ticks_calls s cs] =
           (case float_to_int (chargeProgress (ticks s cs)) of
              Some i \<Rightarrow> PInt i | None \<Rightarrow> PUndefined)"
proof -
  from assms(2) obtain bs c where cs: "cs = bs @ [c]"
    by (metis append_butlast_last_id)
  let ?q = "ticks s bs"
  have q: "\<not> disable ?q" "start ?q \<le> currentTimeinSecs c \<and> currentTimeinSecs c < stop ?q"
    using assms(1,3) ticks_frame [of s bs] by (simp_all add: cs)
  from pm_progress_call [OF q]
  have "[v. virtualWrite PROGRESS_BAR v \<leftarrow> snd (powerManagement ?q c)] =
     [case float_to_int (chargeProgress (ticks s cs)) of Some i \<Rightarrow> PInt i | None \<Rightarrow> PUndefined]"
    by (simp add: cs ticks_snoc)
  then show ?thesis
    by (simp add: cs ticks_calls_snoc)
qed

subsection \<open>Floating point: the rounding error\<close>

text \<open>
  \<open>ilog2\<close> is the exponent of its argument, so \<open>fl p\<close> keeps \<open>p\<close> significant bits and
  is within half a unit in the last place of its argument: the relative error of one
  rounding is at most \<open>2\<^sup>-\<^sup>p\<close>.
\<close>

lemma pow2_powi: "pow2 e = 2 powi e"
  by (simp add: pow2_def power_int_def inverse_eq_divide power_one_over)

lemma pow2_pos: "0 < pow2 e"
  by (simp add: pow2_powi)

lemma pow2_add: "pow2 (a + b) = pow2 a * pow2 b"
  by (simp add: pow2_powi power_int_add)

lemma pow2_diff: "pow2 (a - b) = pow2 a / pow2 b"
  by (simp add: pow2_powi power_int_diff)

lemma pow2_nat: "pow2 (int n) = 2 ^ n"
  by (simp add: pow2_powi)

lemma pow2_less: "a < b \<Longrightarrow> pow2 a < pow2 b"
  by (simp add: pow2_powi power_int_strict_increasing)

lemma pow2_le: "a \<le> b \<Longrightarrow> pow2 a \<le> pow2 b"
  by (simp add: pow2_powi power_int_increasing)

lemma ratio_bounds:
  fixes a b :: int
  assumes "0 < a" "0 < b"
  shows "pow2 (bitlen a - bitlen b - 1) \<le> of_int a / of_int b"
    and "of_int a / of_int b < pow2 (bitlen a - bitlen b + 1)"
proof -
  from bitlen_bounds [OF assms(1)] have a: "2 ^ nat (bitlen a - 1) \<le> a" "a < 2 ^ nat (bitlen a)"
    by simp_all
  from bitlen_bounds [OF assms(2)] have b: "2 ^ nat (bitlen b - 1) \<le> b" "b < 2 ^ nat (bitlen b)"
    by simp_all
  have la: "1 \<le> bitlen a" and lb: "1 \<le> bitlen b"
    using assms bitlen_eq_zero_iff [of a] bitlen_eq_zero_iff [of b] bitlen_nonneg [of a]
      bitlen_nonneg [of b] by linarith+
  have ra: "pow2 (bitlen a - 1) \<le> of_int a" "(of_int a :: rat) < pow2 (bitlen a)"
  proof -
    have "pow2 (bitlen a - 1) = of_int (2 ^ nat (bitlen a - 1))"
      using la by (simp add: pow2_def)
    also have "\<dots> \<le> of_int a" using a(1) by (simp only: of_int_le_iff)
    finally show "pow2 (bitlen a - 1) \<le> of_int a" .
    have "(of_int a :: rat) < of_int (2 ^ nat (bitlen a))"
      using a(2) by (simp only: of_int_less_iff)
    also have "\<dots> = pow2 (bitlen a)" using la by (simp add: pow2_def)
    finally show "(of_int a :: rat) < pow2 (bitlen a)" .
  qed
  have rb: "pow2 (bitlen b - 1) \<le> of_int b" "(of_int b :: rat) < pow2 (bitlen b)"
  proof -
    have "pow2 (bitlen b - 1) = of_int (2 ^ nat (bitlen b - 1))"
      using lb by (simp add: pow2_def)
    also have "\<dots> \<le> of_int b" using b(1) by (simp only: of_int_le_iff)
    finally show "pow2 (bitlen b - 1) \<le> of_int b" .
    have "(of_int b :: rat) < of_int (2 ^ nat (bitlen b))"
      using b(2) by (simp only: of_int_less_iff)
    also have "\<dots> = pow2 (bitlen b)" using lb by (simp add: pow2_def)
    finally show "(of_int b :: rat) < pow2 (bitlen b)" .
  qed
  have bpos: "(0 :: rat) < of_int b" using assms(2) by simp
  have "pow2 (bitlen a - bitlen b - 1) = pow2 (bitlen a - 1) / pow2 (bitlen b)"
    using pow2_diff [of "bitlen a - 1" "bitlen b"] by (simp add: algebra_simps)
  also have "\<dots> \<le> of_int a / of_int b"
    using ra(1) rb(2) bpos pow2_pos [of "bitlen a - 1"]
    by (intro frac_le) simp_all
  finally show "pow2 (bitlen a - bitlen b - 1) \<le> of_int a / of_int b" .
  have "of_int a / of_int b < pow2 (bitlen a) / pow2 (bitlen b - 1)"
    using ra(2) rb(1) pow2_pos [of "bitlen b - 1"] assms(1)
    by (intro frac_less) simp_all
  also have "\<dots> = pow2 (bitlen a - bitlen b + 1)"
    using pow2_diff [of "bitlen a" "bitlen b - 1"] by (simp add: algebra_simps)
  finally show "of_int a / of_int b < pow2 (bitlen a - bitlen b + 1)" .
qed

lemma ilog2_bounds:
  assumes "0 < x"
  shows "pow2 (ilog2 x) \<le> x" and "x < pow2 (ilog2 x + 1)"
proof -
  obtain a b where q: "quotient_of x = (a, b)" by (cases "quotient_of x")
  then have b: "0 < b" and x: "x = of_int a / of_int b"
    by (simp_all add: quotient_of_denom_pos quotient_of_div)
  have a: "0 < a"
    using assms b by (simp add: x zero_less_divide_iff)
  define k where "k = bitlen a - bitlen b"
  have lo: "pow2 (k - 1) \<le> x" and hi: "x < pow2 (k + 1)"
    using ratio_bounds [OF a b] by (simp_all add: x k_def)
  have il: "ilog2 x = (if pow2 k \<le> x then k else k - 1)"
    by (simp add: ilog2_def q k_def)
  show "pow2 (ilog2 x) \<le> x" using lo by (simp add: il)
  show "x < pow2 (ilog2 x + 1)" using hi by (auto simp: il not_le)
qed

lemma ilog2_unique:
  assumes "pow2 e \<le> x" "x < pow2 (e + 1)"
  shows "ilog2 x = e"
proof -
  have x: "0 < x" using assms(1) pow2_pos [of e] by linarith
  note b = ilog2_bounds [OF x]
  have "\<not> e < ilog2 x"
  proof
    assume "e < ilog2 x"
    then have "pow2 (e + 1) \<le> pow2 (ilog2 x)" by (intro pow2_le) simp
    with b(1) assms(2) show False by linarith
  qed
  moreover have "\<not> ilog2 x < e"
  proof
    assume "ilog2 x < e"
    then have "pow2 (ilog2 x + 1) \<le> pow2 e" by (intro pow2_le) simp
    with b(2) assms(1) show False by linarith
  qed
  ultimately show ?thesis by linarith
qed

lemma round_half_even_error: "\<bar>of_int (round_half_even q) - q\<bar> \<le> 1 / 2"
proof -
  have "of_int \<lfloor>q\<rfloor> \<le> q" "q < of_int \<lfloor>q\<rfloor> + 1" by linarith+
  then show ?thesis
    by (auto simp: round_half_even_def Let_def abs_le_iff)
qed

lemma round_half_even_unique:
  assumes "\<bar>q - of_int n\<bar> < 1 / 2"
  shows "round_half_even q = n"
proof -
  have e: "\<bar>of_int (round_half_even q) - q\<bar> \<le> 1 / 2" by (rule round_half_even_error)
  have "\<bar>(of_int (round_half_even q) :: rat) - of_int n\<bar> < 1"
    using e assms by linarith
  then have "\<bar>(of_int (round_half_even q - n) :: rat)\<bar> < 1" by simp
  then have "\<bar>round_half_even q - n\<bar> < 1"
    by (metis of_int_abs of_int_less_1_iff)
  then show ?thesis by linarith
qed

lemma fl_error:
  "\<bar>fl p x - x\<bar> \<le> \<bar>x\<bar> * pow2 (- int p)"
proof (cases "x = 0")
  case True
  then show ?thesis by (simp add: fl_def)
next
  case False
  define e where "e = ilog2 \<bar>x\<bar>"
  define u where "u = pow2 (e - int p + 1)"
  define n where "n = round_half_even (\<bar>x\<bar> / u)"
  have u: "0 < u" by (simp add: u_def pow2_pos)
  have ax: "0 < \<bar>x\<bar>" using False by simp
  have fl: "fl p x = sgn x * (of_int n * u)"
    using False by (simp add: fl_def e_def u_def n_def Let_def)
  have sx: "sgn x * \<bar>x\<bar> = x" by (simp add: sgn_if abs_if)
  have "fl p x - x = sgn x * (of_int n * u) - sgn x * \<bar>x\<bar>"
    by (simp only: fl sx)
  then have "fl p x - x = sgn x * (of_int n * u - \<bar>x\<bar>)"
    by (simp only: right_diff_distrib)
  then have "\<bar>fl p x - x\<bar> = \<bar>of_int n * u - \<bar>x\<bar>\<bar>"
    using False by (simp add: abs_mult sgn_if)
  also have "of_int n * u - \<bar>x\<bar> = (of_int n - \<bar>x\<bar> / u) * u"
    using u by (simp add: algebra_simps)
  also have "\<bar>(of_int n - \<bar>x\<bar> / u) * u\<bar> = \<bar>of_int n - \<bar>x\<bar> / u\<bar> * u"
    using u by (simp add: abs_mult)
  also have "\<dots> \<le> (1 / 2) * u"
    using round_half_even_error [of "\<bar>x\<bar> / u"] u
    by (intro mult_right_mono) (simp_all add: n_def)
  also have "(1 / 2) * u = pow2 e * pow2 (- int p)"
  proof -
    have "u = pow2 (e + (- int p) + 1)" by (simp add: u_def)
    also have "\<dots> = pow2 e * pow2 (- int p) * pow2 1" by (simp only: pow2_add)
    finally show ?thesis by (simp add: pow2_def)
  qed
  also have "\<dots> \<le> \<bar>x\<bar> * pow2 (- int p)"
    using ilog2_bounds(1) [OF ax] pow2_pos [of "- int p"]
    by (intro mult_right_mono) (simp_all add: e_def)
  finally show ?thesis .
qed


lemma pow2_neg_le_1: "pow2 (- int p) \<le> 1"
  using pow2_le [of "- int p" 0] by (simp add: pow2_def)

lemma fl_scale:
  assumes "0 \<le> X" "0 \<le> lo" "lo * X \<le> y" "y \<le> hi * X"
  shows "lo * (1 - pow2 (- int p)) * X \<le> fl p y"
    and "fl p y \<le> hi * (1 + pow2 (- int p)) * X"
proof -
  define e where "e = pow2 (- int p)"
  have e: "0 < e" "e \<le> 1" by (simp_all add: e_def pow2_pos pow2_neg_le_1)
  have y: "0 \<le> y" using assms(1,2,3) by (meson mult_nonneg_nonneg order_trans)
  have err: "\<bar>fl p y - y\<bar> \<le> y * e"
    using fl_error [of p y] y by (simp add: e_def)
  have "lo * X * (1 - e) \<le> y * (1 - e)"
    using assms(3) e(2) by (intro mult_right_mono) simp_all
  also have "\<dots> \<le> fl p y" using err by (simp add: algebra_simps abs_le_iff)
  finally show "lo * (1 - pow2 (- int p)) * X \<le> fl p y"
    by (simp add: e_def mult.assoc mult.left_commute mult.commute)
  have "fl p y \<le> y * (1 + e)" using err by (simp add: algebra_simps abs_le_iff)
  also have "\<dots> \<le> hi * X * (1 + e)"
    using assms(4) e(1) by (intro mult_right_mono) simp_all
  finally show "fl p y \<le> hi * (1 + pow2 (- int p)) * X"
    by (simp add: e_def mult.assoc mult.left_commute mult.commute)
qed

lemma progress_percent_error:
  assumes "0 < d"
  shows "\<bar>progress_percent n d - of_nat (unat n) / of_int d * 100\<bar>
           \<le> of_nat (unat n) / of_int d * 100 / 2 ^ 21"
proof -
  define N :: rat where "N = of_nat (unat n)"
  define D :: rat where "D = of_int d"
  define e :: rat where "e = pow2 (- int 24)"
  define h :: rat where "h = pow2 (- int 53)"
  have N: "0 \<le> N" unfolding N_def by (rule of_nat_0_le_iff)
  have D: "0 < D" using assms by (simp add: D_def)
  have ev: "e = 1 / 16777216" by (simp add: e_def pow2_def)
  have hv: "h = 1 / 9007199254740992" by (simp add: h_def pow2_def)
  have e1: "0 < 1 - e" "0 < 1 + e" "0 < 1 - h" by (simp_all add: ev hv)
  define A where "A = f32 N"
  define B where "B = f32 D"
  have A: "1 * (1 - e) * N \<le> A" "A \<le> 1 * (1 + e) * N"
    unfolding A_def f32_def
    by (rule fl_scale [of N 1 N 1 24, folded e_def]; simp add: N)+
  have D0: "0 \<le> D" using D by simp
  have B: "1 * (1 - e) * D \<le> B" "B \<le> 1 * (1 + e) * D"
    unfolding B_def f32_def
    by (rule fl_scale [of D 1 D 1 24, folded e_def]; simp add: D0)+
  have Bpos: "0 < B"
  proof -
    have "0 < 1 * (1 - e) * D" using D e1(1) by simp
    with B(1) show ?thesis by linarith
  qed
  have Apos: "0 \<le> A"
  proof -
    have "0 \<le> 1 * (1 - e) * N" using e1(1) N by simp
    with A(1) show ?thesis by linarith
  qed
  define X0 where "X0 = N / D"
  have X0: "0 \<le> X0" using N D by (simp add: X0_def)
  have q_lo: "(1 - e) / (1 + e) * X0 \<le> A / B"
  proof -
    have "1 * (1 - e) * N / (1 * (1 + e) * D) \<le> A / B"
      by (rule frac_le [OF Apos A(1) Bpos B(2)])
    then show ?thesis by (simp only: X0_def times_divide_times_eq mult_1)
  qed
  have q_hi: "A / B \<le> (1 + e) / (1 - e) * X0"
  proof -
    have 1: "0 \<le> 1 * (1 + e) * N" using e1(2) N by simp
    have 2: "0 < 1 * (1 - e) * D" using D e1(1) by simp
    have "A / B \<le> 1 * (1 + e) * N / (1 * (1 - e) * D)"
      by (rule frac_le [OF 1 A(2) 2 B(1)])
    then show ?thesis by (simp only: X0_def times_divide_times_eq mult_1)
  qed
  define Q where "Q = f32 (A / B)"
  have lo1: "0 \<le> (1 - e) / (1 + e)" using e1 by simp
  have Q: "(1 - e) / (1 + e) * (1 - e) * X0 \<le> Q" "Q \<le> (1 + e) / (1 - e) * (1 + e) * X0"
    unfolding Q_def f32_def
    by (rule fl_scale [OF X0 lo1 q_lo q_hi, of 24, folded e_def])+
  define X where "X = X0 * 100"
  have X: "0 \<le> X" using X0 by (simp add: X_def)
  have m_lo: "(1 - e) / (1 + e) * (1 - e) * X \<le> Q * 100"
    using Q(1) unfolding X_def by (simp only: mult.assoc [symmetric] mult_right_mono zero_le_numeral)
  have m_hi: "Q * 100 \<le> (1 + e) / (1 - e) * (1 + e) * X"
    using Q(2) unfolding X_def by (simp only: mult.assoc [symmetric] mult_right_mono zero_le_numeral)
  define M where "M = f64 (Q * 100)"
  have lo2: "0 \<le> (1 - e) / (1 + e) * (1 - e)" using e1 by simp
  have M: "(1 - e) / (1 + e) * (1 - e) * (1 - h) * X \<le> M"
    "M \<le> (1 + e) / (1 - e) * (1 + e) * (1 + h) * X"
    unfolding M_def f64_def
    by (rule fl_scale [OF X lo2 m_lo m_hi, of 53, folded h_def])+
  define R where "R = f32 M"
  have lo3: "0 \<le> (1 - e) / (1 + e) * (1 - e) * (1 - h)" using e1 by simp
  have R: "(1 - e) / (1 + e) * (1 - e) * (1 - h) * (1 - e) * X \<le> R"
    "R \<le> (1 + e) / (1 - e) * (1 + e) * (1 + h) * (1 + e) * X"
    unfolding R_def f32_def
    by (rule fl_scale [OF X lo3 M, of 24, folded e_def])+
  have lo: "1 - 1 / 2 ^ 21 \<le> (1 - e) / (1 + e) * (1 - e) * (1 - h) * (1 - e)"
    by (simp add: ev hv)
  have hi: "(1 + e) / (1 - e) * (1 + e) * (1 + h) * (1 + e) \<le> 1 + 1 / 2 ^ 21"
    by (simp add: ev hv)
  have m1: "(1 - 1 / 2 ^ 21) * X \<le> R"
    by (rule order_trans [OF mult_right_mono [OF lo X] R(1)])
  have m2: "R \<le> (1 + 1 / 2 ^ 21) * X"
    by (rule order_trans [OF R(2) mult_right_mono [OF hi X]])
  have "(1 - 1 / 2 ^ 21) * X = X - X / 2 ^ 21" "(1 + 1 / 2 ^ 21) * X = X + X / 2 ^ 21"
    by (simp_all add: algebra_simps)
  with m1 m2 have a1: "X - X / 2 ^ 21 \<le> R" and a2: "R \<le> X + X / 2 ^ 21"
    by simp_all
  have "\<bar>R - X\<bar> \<le> X / 2 ^ 21"
    using a1 a2 by linarith
  moreover have "R = progress_percent n d"
    by (simp add: R_def M_def Q_def A_def B_def N_def D_def progress_percent_def)
  moreover have "X = of_nat (unat n) / of_int d * 100"
    by (simp add: X_def X0_def N_def D_def)
  ultimately show ?thesis by simp
qed

text \<open>
  Where the numerator does not wrap and the denominator fits an \<^verbatim>\<open>int\<close>, the expression of
  line 336 is within the fraction \<open>2\<^sup>-\<^sup>2\<^sup>1\<close> of the exact quotient times one hundred.
\<close>

lemma int32_id: "- (2 ^ 31) \<le> k \<Longrightarrow> k < 2 ^ 31 \<Longrightarrow> int32 k = k"
  by (simp add: int32_def sint_sbintrunc' signed_take_bit_int_eq_self)

lemma float_to_int_Some: "0 \<le> x \<Longrightarrow> x < 2 ^ 31 \<Longrightarrow> float_to_int x = Some \<lfloor>x\<rfloor>"
proof -
  assume x: "0 \<le> x" "x < 2 ^ 31"
  have "0 \<le> \<lfloor>x\<rfloor>" using x(1) by simp
  moreover have "\<lfloor>x\<rfloor> < 2 ^ 31" using x(2) by (simp add: floor_less_iff)
  ultimately show ?thesis using x(1) by (simp add: float_to_int_def)
qed

lemma uint_no_wrap:
  assumes "0 \<le> E" "E + uint w < 2 ^ 32"
  shows "uint (word_of_int E + w :: 32 word) = E + uint w"
proof -
  have E32: "E < 2 ^ 32" using assms uint_ge_0 [of w] by linarith
  have "uint (word_of_int E :: 32 word) = E"
    using assms(1) E32 by (simp add: uint_word_of_int_eq take_bit_int_eq_self)
  then have "uint (word_of_int E + w) = (E + uint w) mod 2 ^ 32"
    by (simp add: uint_word_ariths)
  also have "\<dots> = E + uint w"
    using assms uint_ge_0 [of w] by (intro mod_pos_pos_trivial) linarith+
  finally show ?thesis .
qed

lemma progress_percent_exact:
  assumes "0 \<le> E" "E + uint w < 2 ^ 32" "0 < d" "d < 2 ^ 31"
  shows "\<bar>progress_percent (word_of_int E + w) (int32 d) - of_int (E + uint w) / of_int d * 100\<bar>
           \<le> of_int (E + uint w) / of_int d * 100 / 2 ^ 21"
proof -
  have d: "int32 d = d" using assms(3,4) by (intro int32_id) linarith+
  have "(of_nat (unat (word_of_int E + w)) :: rat) = of_int (uint (word_of_int E + w))"
    by simp
  then have n: "(of_nat (unat (word_of_int E + w)) :: rat) = of_int (E + uint w)"
    by (simp only: uint_no_wrap [OF assms(1,2)])
  show ?thesis
    using progress_percent_error [OF assms(3), of "word_of_int E + w"] unfolding d n .
qed

text \<open>Evaluating \<open>fl\<close> at a number that is not half-way between two neighbours.\<close>

lemma fl_eval:
  assumes "pow2 e \<le> x" "x < pow2 (e + 1)"
    and "\<bar>x / pow2 (e - int p + 1) - of_int m\<bar> < 1 / 2"
  shows "fl p x = of_int m * pow2 (e - int p + 1)"
proof -
  have x: "0 < x" using assms(1) pow2_pos [of e] by linarith
  then have ax: "\<bar>x\<bar> = x" by simp
  have e: "ilog2 x = e" using assms(1,2) by (rule ilog2_unique)
  have r: "round_half_even (x / pow2 (e - int p + 1)) = m"
    using assms(3) by (rule round_half_even_unique)
  show ?thesis using x by (simp add: fl_def ax e r Let_def)
qed

lemma f32_7200: "f32 7200 = 7200"
  unfolding f32_def using fl_eval [of 12 7200 24 14745600] by (simp add: pow2_def)

lemma f32_21600: "f32 21600 = 21600"
  unfolding f32_def using fl_eval [of 14 21600 24 11059200] by (simp add: pow2_def)

lemma f32_third: "f32 (1 / 3) = 11184811 / 33554432"
  unfolding f32_def using fl_eval [of "- 2" "1 / 3" 24 11184811] by (simp add: pow2_def)

lemma f64_prod: "f64 (279620275 / 8388608) = 279620275 / 8388608"
  unfolding f64_def using fl_eval [of 5 "279620275 / 8388608" 53 4691249751654400]
  by (simp add: pow2_def)

lemma f32_prod: "f32 (279620275 / 8388608) = 4369067 / 131072"
  unfolding f32_def using fl_eval [of 5 "279620275 / 8388608" 24 8738134] by (simp add: pow2_def)

lemma progress_percent_example: "progress_percent 7200 21600 = 4369067 / 131072"
  by (simp add: progress_percent_def f32_7200 f32_21600 f32_third f64_prod f32_prod)

subsection \<open>The schedule handler\<close>

text \<open>
  C1. The claim: after every custom schedule edit a window with \<open>stop < start\<close> is
  swapped, so the stored window always has \<open>start \<le> stop\<close>. The handler does not do
  that: lines 433--435 copy \<^verbatim>\<open>state.start\<close> to \<^verbatim>\<open>temp\<close>, overwrite \<^verbatim>\<open>state.start\<close>
  with \<^verbatim>\<open>state.stop\<close> and then write \<^verbatim>\<open>temp\<close> back to \<^verbatim>\<open>state.start\<close>;
  \<^verbatim>\<open>state.stop\<close> is never assigned. With the default schedule stored, the edit
  \<open>start = 30000, stop = 7200\<close> leaves the window \<open>30000 .. 7200\<close>, still inverted.
\<close>

theorem C1_inverted_window_kept:
  "start (fst (BLYNK_WRITE_SCHEDULE initial_state
       \<lparr>hasStartTime = True, hasStopTime = True, param0 = 30000, param1 = 7200\<rparr>)) = 30000
   \<and> stop (fst (BLYNK_WRITE_SCHEDULE initial_state
       \<lparr>hasStartTime = True, hasStopTime = True, param0 = 30000, param1 = 7200\<rparr>)) = 7200
   \<and> stop (fst (BLYNK_WRITE_SCHEDULE initial_state
       \<lparr>hasStartTime = True, hasStopTime = True, param0 = 30000, param1 = 7200\<rparr>))
     < start (fst (BLYNK_WRITE_SCHEDULE initial_state
       \<lparr>hasStartTime = True, hasStopTime = True, param0 = 30000, param1 = 7200\<rparr>))"
  by (simp add: BLYNK_WRITE_SCHEDULE_def initial_state_def Let_def)

text \<open>
  C9. A schedule edit that carries the sentinel \<open>-1\<close> for one bound and a specified time
  for the other stores the specified time, leaves the bound of the sentinel as it was,
  and is accepted (the menu moves to the custom entry 4).
\<close>

theorem C9_sentinel_bound_unchanged:
  "(param0 p = - 1 \<and> hasStopTime p \<and> param1 p \<noteq> - 1 \<longrightarrow>
      start (fst (BLYNK_WRITE_SCHEDULE s p)) = start s
    \<and> stop (fst (BLYNK_WRITE_SCHEDULE s p)) = param1 p
    \<and> menuSelection (fst (BLYNK_WRITE_SCHEDULE s p)) = 4)
 \<and> (param1 p = - 1 \<and> hasStartTime p \<and> param0 p \<noteq> - 1 \<longrightarrow>
      start (fst (BLYNK_WRITE_SCHEDULE s p)) = param0 p
    \<and> stop (fst (BLYNK_WRITE_SCHEDULE s p)) = stop s
    \<and> menuSelection (fst (BLYNK_WRITE_SCHEDULE s p)) = 4)"
  by (simp add: BLYNK_WRITE_SCHEDULE_def Let_def)

theorem C9_sentinel_bound_unchanged_witness:
  "start (fst (BLYNK_WRITE_SCHEDULE initial_state
       \<lparr>hasStartTime = True, hasStopTime = True, param0 = 7200, param1 = - 1\<rparr>)) = 7200
   \<and> stop (fst (BLYNK_WRITE_SCHEDULE initial_state
       \<lparr>hasStartTime = True, hasStopTime = True, param0 = 7200, param1 = - 1\<rparr>)) = 21600
   \<and> start (fst (BLYNK_WRITE_SCHEDULE initial_state
       \<lparr>hasStartTime = True, hasStopTime = True, param0 = - 1, param1 = 3600\<rparr>)) = 0
   \<and> stop (fst (BLYNK_WRITE_SCHEDULE initial_state
       \<lparr>hasStartTime = True, hasStopTime = True, param0 = - 1, param1 = 3600\<rparr>)) = 3600"
  using C9_sentinel_bound_unchanged [of
       "\<lparr>hasStartTime = True, hasStopTime = True, param0 = 7200, param1 = - 1\<rparr>" initial_state]
    C9_sentinel_bound_unchanged [of
       "\<lparr>hasStartTime = True, hasStopTime = True, param0 = - 1, param1 = 3600\<rparr>" initial_state]
  by (simp add: initial_state_def)

subsection \<open>The decision of a tick\<close>

text \<open>
  C2. A tick that runs with \<^verbatim>\<open>state.disable\<close> set ends in \<open>S_DISABLED\<close> with
  \<^verbatim>\<open>state.charging\<close> false, so the loop drives the MOSFET pin low; the time of day, the
  window and the manual flag play no part.
\<close>

theorem C2_disable_overrides:
  assumes "disable s"
  shows "chargeState (fst (powerManagement s c)) = S_DISABLED
       \<and> charging (fst (powerManagement s c)) = False
       \<and> loop_ENABLE (fst (powerManagement s c)) = LOW"
  using assms by (simp add: pm_defs loop_ENABLE_def split: prod.splits)

theorem C2_disable_overrides_witness:
  "disable (initial_state\<lparr>disable := True, manual := True\<rparr>)
   \<and> chargeState (fst (powerManagement (initial_state\<lparr>disable := True, manual := True\<rparr>)
         \<lparr>hour = 2, minute = 0, second = 0, nowSession = 7200, nowReport = 7200\<rparr>)) = S_DISABLED
   \<and> charging (fst (powerManagement (initial_state\<lparr>disable := True, manual := True\<rparr>)
         \<lparr>hour = 2, minute = 0, second = 0, nowSession = 7200, nowReport = 7200\<rparr>)) = False
   \<and> loop_ENABLE (fst (powerManagement (initial_state\<lparr>disable := True, manual := True\<rparr>)
         \<lparr>hour = 2, minute = 0, second = 0, nowSession = 7200, nowReport = 7200\<rparr>)) = LOW"
  using C2_disable_overrides [of "initial_state\<lparr>disable := True, manual := True\<rparr>"
      "\<lparr>hour = 2, minute = 0, second = 0, nowSession = 7200, nowReport = 7200\<rparr>"]
  by (simp add: initial_state_def)

text \<open>
  C3. A tick that runs with \<^verbatim>\<open>state.disable\<close> clear: inside the window \<open>[start, stop)\<close>
  it ends in \<open>S_CHARGING\<close> with the power on and the manual flag cleared, whatever the
  manual flag was; outside the window it ends in \<open>S_MANUAL\<close> with the power on when the
  manual flag is set, and in \<open>S_QUIESCENT\<close> with the power off when it is not.
\<close>

theorem C3_decision_when_enabled:
  assumes "\<not> disable s"
  shows "(if start s \<le> currentTimeinSecs c \<and> currentTimeinSecs c < stop s
          then chargeState (fst (powerManagement s c)) = S_CHARGING
             \<and> charging (fst (powerManagement s c))
             \<and> loop_ENABLE (fst (powerManagement s c)) = HIGH
             \<and> \<not> manual (fst (powerManagement s c))
          else if manual s
          then chargeState (fst (powerManagement s c)) = S_MANUAL
             \<and> charging (fst (powerManagement s c))
             \<and> loop_ENABLE (fst (powerManagement s c)) = HIGH
          else chargeState (fst (powerManagement s c)) = S_QUIESCENT
             \<and> \<not> charging (fst (powerManagement s c))
             \<and> loop_ENABLE (fst (powerManagement s c)) = LOW)"
  using assms by (simp add: pm_defs loop_ENABLE_def split: prod.splits)

theorem C3_decision_when_enabled_witness:
  "chargeState (fst (powerManagement (initial_state\<lparr>manual := True\<rparr>)
         \<lparr>hour = 2, minute = 0, second = 0, nowSession = 7200, nowReport = 7200\<rparr>)) = S_CHARGING
   \<and> \<not> manual (fst (powerManagement (initial_state\<lparr>manual := True\<rparr>)
         \<lparr>hour = 2, minute = 0, second = 0, nowSession = 7200, nowReport = 7200\<rparr>))
   \<and> chargeState (fst (powerManagement (initial_state\<lparr>manual := True\<rparr>)
         \<lparr>hour = 7, minute = 30, second = 0, nowSession = 27000, nowReport = 27000\<rparr>)) = S_MANUAL
   \<and> loop_ENABLE (fst (powerManagement (initial_state\<lparr>manual := True\<rparr>)
         \<lparr>hour = 7, minute = 30, second = 0, nowSession = 27000, nowReport = 27000\<rparr>)) = HIGH
   \<and> chargeState (fst (powerManagement initial_state
         \<lparr>hour = 7, minute = 30, second = 0, nowSession = 27000, nowReport = 27000\<rparr>)) = S_QUIESCENT
   \<and> loop_ENABLE (fst (powerManagement initial_state
         \<lparr>hour = 7, minute = 30, second = 0, nowSession = 27000, nowReport = 27000\<rparr>)) = LOW"
  using C3_decision_when_enabled [of "initial_state\<lparr>manual := True\<rparr>"
      "\<lparr>hour = 2, minute = 0, second = 0, nowSession = 7200, nowReport = 7200\<rparr>"]
    C3_decision_when_enabled [of "initial_state\<lparr>manual := True\<rparr>"
      "\<lparr>hour = 7, minute = 30, second = 0, nowSession = 27000, nowReport = 27000\<rparr>"]
    C3_decision_when_enabled [of "initial_state"
      "\<lparr>hour = 7, minute = 30, second = 0, nowSession = 27000, nowReport = 27000\<rparr>"]
  by (simp add: initial_state_def currentTimeinSecs_def)

text \<open>
  C10. A tick that runs with \<^verbatim>\<open>state.disable\<close> set clears \<^verbatim>\<open>state.manual\<close> (line 325).
  So when the force-disable button is released and nobody has pressed the manual button
  since, the next tick outside the window ends in \<open>S_QUIESCENT\<close>: the manual session
  that was pending before the disable is not resumed.
\<close>

theorem C10_disabled_tick_clears_manual:
  assumes "disable s"
  shows "manual (fst (powerManagement s c)) = False
   \<and> (\<forall>s' c'. \<not> disable s' \<and> manual s' = manual (fst (powerManagement s c))
          \<and> \<not> (start s' \<le> currentTimeinSecs c' \<and> currentTimeinSecs c' < stop s')
        \<longrightarrow> chargeState (fst (powerManagement s' c')) = S_QUIESCENT)
   \<and> (BLYNK_DEBOUNCE_TIME < millis - lastPressDisable s
        \<and> \<not> (start s \<le> currentTimeinSecs c' \<and> currentTimeinSecs c' < stop s)
        \<longrightarrow> chargeState (fst (powerManagement
               (fst (BLYNK_WRITE_FORCE_DISABLE (fst (powerManagement s c)) millis)) c'))
             = S_QUIESCENT)"
  using assms
  by (simp add: pm_manual pm_chargeState pm_frame BLYNK_WRITE_FORCE_DISABLE_def)

theorem C10_disabled_tick_clears_manual_witness:
  "manual (fst (powerManagement (initial_state\<lparr>manual := True, disable := True\<rparr>)
       \<lparr>hour = 7, minute = 30, second = 0, nowSession = 27000, nowReport = 27000\<rparr>)) = False
   \<and> chargeState (fst (powerManagement
        (fst (BLYNK_WRITE_FORCE_DISABLE
           (fst (powerManagement (initial_state\<lparr>manual := True, disable := True\<rparr>)
              \<lparr>hour = 7, minute = 30, second = 0, nowSession = 27000, nowReport = 27000\<rparr>)) 5000))
        \<lparr>hour = 7, minute = 30, second = 5, nowSession = 27005, nowReport = 27005\<rparr>)) = S_QUIESCENT"
  using C10_disabled_tick_clears_manual [of "initial_state\<lparr>manual := True, disable := True\<rparr>"
      "\<lparr>hour = 7, minute = 30, second = 0, nowSession = 27000, nowReport = 27000\<rparr>" 5000
      "\<lparr>hour = 7, minute = 30, second = 5, nowSession = 27005, nowReport = 27005\<rparr>"]
  by (simp add: initial_state_def currentTimeinSecs_def BLYNK_DEBOUNCE_TIME_def)

text \<open>
  C7. Every tick leaves \<^verbatim>\<open>lastChargeState\<close> equal to \<^verbatim>\<open>chargeState\<close>. A tick that starts
  from such a state updates the LED and the manual button of the dashboard exactly when
  its state differs from the state of the tick before, once, with the colour and label
  of the new state. A second tick with the same classification of the time of day and
  no handler in between yields the same state and the same power output and makes none
  of these calls.
\<close>

theorem C7_notification_once_per_transition:
  "lastChargeState (fst (powerManagement s c)) = chargeState (fst (powerManagement s c))
 \<and> (lastChargeState s = chargeState s \<longrightarrow>
      state_change_calls (snd (powerManagement s c)) =
        (if chargeState (fst (powerManagement s c)) = chargeState s then []
         else (case chargeState (fst (powerManagement s c)) of
                 S_MANUAL \<Rightarrow> [setColor BLYNK_BLUE, setLabel ''MAN'',
                              virtualWrite MANUAL_OVERRIDE (PBool True)]
               | S_CHARGING \<Rightarrow> [setColor BLYNK_GREEN, setLabel ''ON'',
                              virtualWrite MANUAL_OVERRIDE (PBool False)]
               | S_DISABLED \<Rightarrow> [setColor BLYNK_YELLOW, setLabel ''DSBLD'',
                              virtualWrite MANUAL_OVERRIDE (PBool False)]
               | S_QUIESCENT \<Rightarrow> [setColor BLYNK_RED, setLabel ''OFF'',
                              virtualWrite MANUAL_OVERRIDE (PBool False)])))
 \<and> ((start s \<le> currentTimeinSecs c' \<and> currentTimeinSecs c' < stop s)
      = (start s \<le> currentTimeinSecs c \<and> currentTimeinSecs c < stop s) \<longrightarrow>
      chargeState (fst (powerManagement (fst (powerManagement s c)) c'))
        = chargeState (fst (powerManagement s c))
    \<and> charging (fst (powerManagement (fst (powerManagement s c)) c'))
        = charging (fst (powerManagement s c))
    \<and> state_change_calls (snd (powerManagement (fst (powerManagement s c)) c')) = [])"
proof (intro conjI impI)
  show "lastChargeState (fst (powerManagement s c)) = chargeState (fst (powerManagement s c))"
    by (rule pm_lastChargeState)
next
  assume "lastChargeState s = chargeState s"
  then show "state_change_calls (snd (powerManagement s c)) =
        (if chargeState (fst (powerManagement s c)) = chargeState s then []
         else (case chargeState (fst (powerManagement s c)) of
                 S_MANUAL \<Rightarrow> [setColor BLYNK_BLUE, setLabel ''MAN'',
                              virtualWrite MANUAL_OVERRIDE (PBool True)]
               | S_CHARGING \<Rightarrow> [setColor BLYNK_GREEN, setLabel ''ON'',
                              virtualWrite MANUAL_OVERRIDE (PBool False)]
               | S_DISABLED \<Rightarrow> [setColor BLYNK_YELLOW, setLabel ''DSBLD'',
                              virtualWrite MANUAL_OVERRIDE (PBool False)]
               | S_QUIESCENT \<Rightarrow> [setColor BLYNK_RED, setLabel ''OFF'',
                              virtualWrite MANUAL_OVERRIDE (PBool False)]))"
    by (simp only: pm_state_change_calls)
next
  assume same: "(start s \<le> currentTimeinSecs c' \<and> currentTimeinSecs c' < stop s)
      = (start s \<le> currentTimeinSecs c \<and> currentTimeinSecs c < stop s)"
  define s1 where "s1 = fst (powerManagement s c)"
  have st: "chargeState (fst (powerManagement s1 c')) = chargeState s1"
    unfolding s1_def pm_chargeState [of "fst (powerManagement s c)"] pm_frame pm_manual
    using same by (simp add: pm_chargeState)
  show "chargeState (fst (powerManagement (fst (powerManagement s c)) c'))
        = chargeState (fst (powerManagement s c))"
    using st by (simp add: s1_def)
  show "charging (fst (powerManagement (fst (powerManagement s c)) c'))
        = charging (fst (powerManagement s c))"
    unfolding pm_charging pm_frame pm_manual using same by auto
  have "lastChargeState s1 = chargeState s1"
    by (simp add: s1_def pm_lastChargeState)
  with st have "state_change_calls (snd (powerManagement s1 c')) = []"
    by (simp add: pm_state_change_calls)
  then show "state_change_calls (snd (powerManagement (fst (powerManagement s c)) c')) = []"
    by (simp add: s1_def)
qed

theorem C7_notification_once_per_transition_witness:
  "state_change_calls (snd (powerManagement initial_state
       \<lparr>hour = 2, minute = 0, second = 0, nowSession = 7200, nowReport = 7200\<rparr>))
     = [setColor BLYNK_GREEN, setLabel ''ON'', virtualWrite MANUAL_OVERRIDE (PBool False)]
   \<and> state_change_calls (snd (powerManagement (fst (powerManagement initial_state
       \<lparr>hour = 2, minute = 0, second = 0, nowSession = 7200, nowReport = 7200\<rparr>))
       \<lparr>hour = 2, minute = 0, second = 5, nowSession = 7205, nowReport = 7205\<rparr>)) = []
   \<and> chargeState (fst (powerManagement (fst (powerManagement initial_state
       \<lparr>hour = 2, minute = 0, second = 0, nowSession = 7200, nowReport = 7200\<rparr>))
       \<lparr>hour = 2, minute = 0, second = 5, nowSession = 7205, nowReport = 7205\<rparr>)) = S_CHARGING"
  using C7_notification_once_per_transition [of initial_state
       "\<lparr>hour = 2, minute = 0, second = 0, nowSession = 7200, nowReport = 7200\<rparr>"
       "\<lparr>hour = 2, minute = 0, second = 5, nowSession = 7205, nowReport = 7205\<rparr>"]
  by (simp add: initial_state_def currentTimeinSecs_def pm_chargeState)

subsection \<open>The debounce gate\<close>

lemma run_gate_append: "run_gate s (xs @ ys) = run_gate (run_gate s xs) ys"
  by (induction xs arbitrary: s) auto

lemma flips_append: "flips s (xs @ ys) = flips s xs + flips (run_gate s xs) ys"
  by (induction xs arbitrary: s) auto

lemma loops_window_open:
  "debounce s \<Longrightarrow> \<forall>u\<in>set ts. u - debounceStart s \<le> DEBOUNCE_TIME \<Longrightarrow>
     run_gate s (map Loop ts) = s"
  by (induction ts arbitrary: s) (auto simp: loop_debounce_def)

lemma loops_no_flip: "flips s (map Loop ts) = 0"
  by (induction ts arbitrary: s) (auto simp: loop_debounce_def)

lemma loops_manual: "manual (run_gate s (map Loop ts)) = manual s"
  by (induction ts arbitrary: s) (auto simp: loop_debounce_def)

lemma loops_stay_closed: "\<not> debounce s \<Longrightarrow> \<not> debounce (run_gate s (map Loop ts))"
  by (induction ts arbitrary: s) (auto simp: loop_debounce_def)

lemma loops_debounceStart: "debounceStart (run_gate s (map Loop ts)) = debounceStart s"
  by (induction ts arbitrary: s) (auto simp: loop_debounce_def)

lemma loops_close:
  "\<exists>u\<in>set ts. DEBOUNCE_TIME < u - debounceStart s \<Longrightarrow> \<not> debounce (run_gate s (map Loop ts))"
proof (induction ts arbitrary: s)
  case Nil
  then show ?case by simp
next
  case (Cons t ts)
  show ?case
  proof (cases "debounce (loop_debounce s t)")
    case False
    then show ?thesis by (simp add: loops_stay_closed)
  next
    case True
    then have same: "loop_debounce s t = s" and le: "\<not> DEBOUNCE_TIME < t - debounceStart s"
      by (auto simp: loop_debounce_def split: if_splits)
    with Cons.prems have "\<exists>u\<in>set ts. DEBOUNCE_TIME < u - debounceStart s" by auto
    with Cons.IH [of s] same show ?thesis by simp
  qed
qed

text \<open>
  C8. An edge that finds no debounce window open toggles \<^verbatim>\<open>state.manual\<close> and opens a
  window that starts at the current \<^verbatim>\<open>millis()\<close>; an edge that finds a window open changes
  nothing. A loop iteration leaves an open window open as long as at most 250 ms have
  passed since it was opened, and closes it after that. So of two edges 50 ms apart
  the second is dropped, whatever loop iterations run between them (one flip); of two
  edges 300 ms apart the second is accepted when a loop iteration has run more than
  250 ms after the first (two flips).
\<close>

theorem C8_debounce_gate:
  "(\<not> debounce s \<longrightarrow>
      manualOverride s t = s\<lparr>debounce := True, debounceStart := t, manual := \<not> manual s\<rparr>)
 \<and> (debounce s \<longrightarrow> manualOverride s t = s)
 \<and> (debounce s \<longrightarrow> debounce (loop_debounce s u) = (u - debounceStart s \<le> 250))
 \<and> (\<not> debounce s \<and> (\<forall>u\<in>set ts. u - t \<le> 50) \<longrightarrow>
      flips s (Edge t # map Loop ts @ [Edge (t + 50)]) = 1
    \<and> manual (run_gate s (Edge t # map Loop ts @ [Edge (t + 50)])) = (\<not> manual s))
 \<and> (\<not> debounce s \<and> (\<forall>u\<in>set ts. u - t \<le> 300) \<and> (\<exists>u\<in>set ts. 250 < u - t) \<longrightarrow>
      flips s (Edge t # map Loop ts @ [Edge (t + 300)]) = 2
    \<and> manual (run_gate s (Edge t # map Loop ts @ [Edge (t + 300)])) = manual s)"
proof (intro conjI impI)
  show "manualOverride s t = s\<lparr>debounce := True, debounceStart := t, manual := \<not> manual s\<rparr>"
    if "\<not> debounce s" using that by (simp add: manualOverride_def)
  show "manualOverride s t = s" if "debounce s" using that by (simp add: manualOverride_def)
  show "debounce (loop_debounce s u) = (u - debounceStart s \<le> 250)" if "debounce s"
    using that by (auto simp: loop_debounce_def DEBOUNCE_TIME_def not_less)
next
  assume h: "\<not> debounce s \<and> (\<forall>u\<in>set ts. u - t \<le> 50)"
  define s1 where "s1 = manualOverride s t"
  have s1: "debounce s1" "debounceStart s1 = t" "manual s1 = (\<not> manual s)"
    using h by (simp_all add: s1_def manualOverride_def)
  have "\<forall>u\<in>set ts. u - debounceStart s1 \<le> DEBOUNCE_TIME"
  proof
    fix u assume "u \<in> set ts"
    with h have "u - t \<le> 50" by blast
    also have "(50 :: 32 word) \<le> 250" by simp
    finally show "u - debounceStart s1 \<le> DEBOUNCE_TIME" by (simp add: s1 DEBOUNCE_TIME_def)
  qed
  then have keep: "run_gate s1 (map Loop ts) = s1"
    using s1(1) by (rule loops_window_open [rotated])
  have dropped: "manualOverride s1 (t + 50) = s1"
    using s1(1) by (simp add: manualOverride_def)
  show "flips s (Edge t # map Loop ts @ [Edge (t + 50)]) = 1"
    using s1(3) by (simp add: flips_append loops_no_flip s1_def [symmetric] keep dropped)
  show "manual (run_gate s (Edge t # map Loop ts @ [Edge (t + 50)])) = (\<not> manual s)"
    using s1(3) by (simp add: run_gate_append s1_def [symmetric] keep dropped)
next
  assume h: "\<not> debounce s \<and> (\<forall>u\<in>set ts. u - t \<le> 300) \<and> (\<exists>u\<in>set ts. 250 < u - t)"
  define s1 where "s1 = manualOverride s t"
  define s2 where "s2 = run_gate s1 (map Loop ts)"
  have s1: "debounce s1" "debounceStart s1 = t" "manual s1 = (\<not> manual s)"
    using h by (simp_all add: s1_def manualOverride_def)
  have "\<exists>u\<in>set ts. DEBOUNCE_TIME < u - debounceStart s1"
    using h by (simp add: s1 DEBOUNCE_TIME_def)
  then have s2: "\<not> debounce s2" "manual s2 = (\<not> manual s)"
    by (simp_all add: s2_def loops_close loops_manual s1)
  have accepted: "manual (manualOverride s2 (t + 300)) = manual s"
    using s2 by (simp add: manualOverride_def)
  show "flips s (Edge t # map Loop ts @ [Edge (t + 300)]) = 2"
    using s1(3) s2(2) accepted
    by (simp add: flips_append loops_no_flip s1_def [symmetric] s2_def [symmetric])
  show "manual (run_gate s (Edge t # map Loop ts @ [Edge (t + 300)])) = manual s"
    using accepted
    by (simp add: run_gate_append s1_def [symmetric] s2_def [symmetric])
qed

theorem C8_debounce_gate_witness:
  "flips (initial_state\<lparr>debounce := False\<rparr>) [Edge 1000, Loop 1010, Loop 1040, Edge 1050] = 1
   \<and> manual (run_gate (initial_state\<lparr>debounce := False\<rparr>)
        [Edge 1000, Loop 1010, Loop 1040, Edge 1050]) = True
   \<and> flips (initial_state\<lparr>debounce := False\<rparr>) [Edge 1000, Loop 1100, Loop 1260, Edge 1300] = 2
   \<and> manual (run_gate (initial_state\<lparr>debounce := False\<rparr>)
        [Edge 1000, Loop 1100, Loop 1260, Edge 1300]) = False
   \<and> debounce (manualOverride (initial_state\<lparr>debounce := False\<rparr>) 1000)
   \<and> debounce (loop_debounce (manualOverride (initial_state\<lparr>debounce := False\<rparr>) 1000) 1250)
   \<and> \<not> debounce (loop_debounce (manualOverride (initial_state\<lparr>debounce := False\<rparr>) 1000) 1251)"
  using C8_debounce_gate [of "initial_state\<lparr>debounce := False\<rparr>" 1000 1250 "[1010, 1040]"]
    C8_debounce_gate [of "initial_state\<lparr>debounce := False\<rparr>" 1000 1251 "[1100, 1260]"]
    C8_debounce_gate [of "manualOverride (initial_state\<lparr>debounce := False\<rparr>) 1000" 0 1250 "[]"]
    C8_debounce_gate [of "manualOverride (initial_state\<lparr>debounce := False\<rparr>) 1000" 0 1251 "[]"]
  by (simp add: initial_state_def manualOverride_def loop_debounce_def DEBOUNCE_TIME_def)

subsection \<open>Runtime and progress\<close>

text \<open>
  C5. The claim: a tick that enters \<open>S_CHARGING\<close> or \<open>S_MANUAL\<close> sets
  \<^verbatim>\<open>state.runtimeStart\<close> to the current time whenever the tick before was in neither, and
  in particular on entering \<open>S_CHARGING\<close> from \<open>S_MANUAL\<close>. The second half fails: the
  sketch has one flag \<^verbatim>\<open>counterEnabled\<close> for both states, and the guard
  \<^verbatim>\<open>if ( !counterEnabled )\<close> of line 252 skips the assignment when the manual session set
  it. Manual override at 23:00:00 (clock 82800), window opens at midnight, tick at
  00:00:05 (clock 86405): the state is \<open>S_CHARGING\<close> and \<^verbatim>\<open>runtimeStart\<close> is still 82800.
\<close>

theorem C5_counterexample:
  "chargeState (fst (powerManagement (initial_state\<lparr>manual := True\<rparr>)
       \<lparr>hour = 23, minute = 0, second = 0, nowSession = 82800, nowReport = 82800\<rparr>)) = S_MANUAL
   \<and> chargeState (fst (powerManagement
        (fst (powerManagement (initial_state\<lparr>manual := True\<rparr>)
           \<lparr>hour = 23, minute = 0, second = 0, nowSession = 82800, nowReport = 82800\<rparr>))
        \<lparr>hour = 0, minute = 0, second = 5, nowSession = 86405, nowReport = 86405\<rparr>)) = S_CHARGING
   \<and> runtimeStart (fst (powerManagement
        (fst (powerManagement (initial_state\<lparr>manual := True\<rparr>)
           \<lparr>hour = 23, minute = 0, second = 0, nowSession = 82800, nowReport = 82800\<rparr>))
        \<lparr>hour = 0, minute = 0, second = 5, nowSession = 86405, nowReport = 86405\<rparr>)) = 82800
   \<and> runtimeStart (fst (powerManagement
        (fst (powerManagement (initial_state\<lparr>manual := True\<rparr>)
           \<lparr>hour = 23, minute = 0, second = 0, nowSession = 82800, nowReport = 82800\<rparr>))
        \<lparr>hour = 0, minute = 0, second = 5, nowSession = 86405, nowReport = 86405\<rparr>))
       \<noteq> nowSession \<lparr>hour = 0, minute = 0, second = 5, nowSession = 86405, nowReport = 86405\<rparr>"
  by (simp add: pm_chargeState pm_runtimeStart pm_counterEnabled pm_frame pm_manual
      initial_state_def currentTimeinSecs_def)

text \<open>
  C5, amended. Let a tick end in \<open>S_CHARGING\<close> or \<open>S_MANUAL\<close>. If the tick before it ended
  in \<open>S_QUIESCENT\<close> or \<open>S_DISABLED\<close>, or if it is the first tick after the start of the
  sketch, \<^verbatim>\<open>state.runtimeStart\<close> is the reading of the clock in this tick. If the tick
  before it ended in \<open>S_CHARGING\<close> or \<open>S_MANUAL\<close>, \<^verbatim>\<open>state.runtimeStart\<close> is unchanged;
  this includes entering \<open>S_CHARGING\<close> from \<open>S_MANUAL\<close>. Between the two ticks the
  handlers may have changed the manual flag, the disable flag and the schedule.
\<close>

theorem C5_session_start:
  assumes "chargeState (fst (powerManagement s c)) = S_CHARGING
         \<or> chargeState (fst (powerManagement s c)) = S_MANUAL"
  shows "(s = (fst (powerManagement sp cp))\<lparr>manual := m, disable := d, start := a, stop := b\<rparr> \<longrightarrow>
            runtimeStart (fst (powerManagement s c)) =
              (if chargeState (fst (powerManagement sp cp)) = S_CHARGING
                  \<or> chargeState (fst (powerManagement sp cp)) = S_MANUAL
               then runtimeStart (fst (powerManagement sp cp))
               else nowSession c))
       \<and> (s = initial_state\<lparr>manual := m, disable := d, start := a, stop := b\<rparr> \<longrightarrow>
            runtimeStart (fst (powerManagement s c)) = nowSession c)"
proof -
  have counted: "\<not> disable s
      \<and> ((start s \<le> currentTimeinSecs c \<and> currentTimeinSecs c < stop s) \<or> manual s)"
    using assms by (simp add: pm_chargeState split: if_splits)
  then have rs: "runtimeStart (fst (powerManagement s c)) =
      (if counterEnabled s then runtimeStart s else nowSession c)"
    by (simp add: pm_runtimeStart)
  show ?thesis
  proof (intro conjI impI)
    assume s: "s = (fst (powerManagement sp cp))\<lparr>manual := m, disable := d, start := a, stop := b\<rparr>"
    have "counterEnabled s = (chargeState (fst (powerManagement sp cp)) = S_CHARGING
               \<or> chargeState (fst (powerManagement sp cp)) = S_MANUAL)"
      by (simp add: s pm_counterEnabled pm_chargeState)
    moreover have "runtimeStart s = runtimeStart (fst (powerManagement sp cp))"
      by (simp add: s)
    ultimately show "runtimeStart (fst (powerManagement s c)) =
              (if chargeState (fst (powerManagement sp cp)) = S_CHARGING
                  \<or> chargeState (fst (powerManagement sp cp)) = S_MANUAL
               then runtimeStart (fst (powerManagement sp cp))
               else nowSession c)"
      using rs by simp
  next
    assume "s = initial_state\<lparr>manual := m, disable := d, start := a, stop := b\<rparr>"
    then have "\<not> counterEnabled s" by (simp add: initial_state_def)
    then show "runtimeStart (fst (powerManagement s c)) = nowSession c"
      using rs by simp
  qed
qed

theorem C5_session_start_witness:
  "runtimeStart (fst (powerManagement
      ((fst (powerManagement initial_state
           \<lparr>hour = 7, minute = 30, second = 0, nowSession = 27000, nowReport = 27000\<rparr>))
         \<lparr>manual := True, disable := False, start := 0, stop := 21600\<rparr>)
      \<lparr>hour = 7, minute = 30, second = 5, nowSession = 27005, nowReport = 27005\<rparr>)) = 27005
 \<and> runtimeStart (fst (powerManagement
      ((fst (powerManagement (initial_state\<lparr>manual := True\<rparr>)
           \<lparr>hour = 23, minute = 0, second = 0, nowSession = 82800, nowReport = 82800\<rparr>))
         \<lparr>manual := True, disable := False, start := 0, stop := 21600\<rparr>)
      \<lparr>hour = 0, minute = 0, second = 5, nowSession = 86405, nowReport = 86405\<rparr>)) = 82800
 \<and> runtimeStart (fst (powerManagement
      (initial_state\<lparr>manual := False, disable := False, start := 0, stop := 21600\<rparr>)
      \<lparr>hour = 2, minute = 0, second = 0, nowSession = 7200, nowReport = 7200\<rparr>)) = 7200"
  using C5_session_start [where
      s = "(fst (powerManagement initial_state
           \<lparr>hour = 7, minute = 30, second = 0, nowSession = 27000, nowReport = 27000\<rparr>))
         \<lparr>manual := True, disable := False, start := 0, stop := 21600\<rparr>"
      and c = "\<lparr>hour = 7, minute = 30, second = 5, nowSession = 27005, nowReport = 27005\<rparr>"
      and sp = initial_state
      and cp = "\<lparr>hour = 7, minute = 30, second = 0, nowSession = 27000, nowReport = 27000\<rparr>"
      and m = True and d = False and a = 0 and b = 21600]
    C5_session_start [where
      s = "(fst (powerManagement (initial_state\<lparr>manual := True\<rparr>)
           \<lparr>hour = 23, minute = 0, second = 0, nowSession = 82800, nowReport = 82800\<rparr>))
         \<lparr>manual := True, disable := False, start := 0, stop := 21600\<rparr>"
      and c = "\<lparr>hour = 0, minute = 0, second = 5, nowSession = 86405, nowReport = 86405\<rparr>"
      and sp = "initial_state\<lparr>manual := True\<rparr>"
      and cp = "\<lparr>hour = 23, minute = 0, second = 0, nowSession = 82800, nowReport = 82800\<rparr>"
      and m = True and d = False and a = 0 and b = 21600]
    C5_session_start [where
      s = "initial_state\<lparr>manual := False, disable := False, start := 0, stop := 21600\<rparr>"
      and c = "\<lparr>hour = 2, minute = 0, second = 0, nowSession = 7200, nowReport = 7200\<rparr>"
      and sp = initial_state
      and cp = "\<lparr>hour = 7, minute = 30, second = 0, nowSession = 27000, nowReport = 27000\<rparr>"
      and m = False and d = False and a = 0 and b = 21600]
  by (simp add: pm_chargeState pm_runtimeStart pm_counterEnabled pm_frame pm_manual
      initial_state_def currentTimeinSecs_def)

text \<open>
  C4. Let a charging session be in progress (the last tick ended in \<open>S_CHARGING\<close>) and
  the disable flag be set. Let \<open>T1\<close> be the time from \<^verbatim>\<open>runtimeStart\<close> to the first disabled
  tick \<open>c1\<close>, and \<open>T2\<close> the time from the first tick \<open>c2\<close> after the disable flag is cleared
  to the last tick of the run \<open>c2 # cs2\<close>, all of them inside the window; both are
  durations, so not negative, and with what was saved before they fit 32 bits. Then the
  disabled ticks \<open>c1 # cs1\<close> add exactly \<open>T1\<close> to \<^verbatim>\<open>state.savedRuntime\<close>, the resumed
  ticks end in \<open>S_CHARGING\<close>, and the progress after the last of them is, up to the
  rounding of the floating-point computation (a fraction \<open>2\<^sup>-\<^sup>2\<^sup>1\<close>), the saved seconds
  plus \<open>T1 + T2\<close> over \<open>stop - start\<close> times one hundred, not \<open>T2\<close> alone; its integer part
  is the last value written to the progress bar.
\<close>

theorem C4_carry_over:
  assumes "chargeState s = S_CHARGING" and "disable s"
    and "\<forall>c\<in>set (c2 # cs2). start s \<le> currentTimeinSecs c \<and> currentTimeinSecs c < stop s"
    and "0 \<le> nowSession c1 - runtimeStart s"
    and "0 \<le> nowReport (last (c2 # cs2)) - nowSession c2"
    and "uint (savedRuntime s) + (nowSession c1 - runtimeStart s)
           + (nowReport (last (c2 # cs2)) - nowSession c2) < 2 ^ 32"
    and "stop s - start s < 2 ^ 31"
  shows "uint (savedRuntime (ticks s (c1 # cs1)))
           = uint (savedRuntime s) + (nowSession c1 - runtimeStart s)
       \<and> chargeState (ticks ((ticks s (c1 # cs1))\<lparr>disable := False\<rparr>) (c2 # cs2)) = S_CHARGING
       \<and> \<bar>chargeProgress (ticks ((ticks s (c1 # cs1))\<lparr>disable := False\<rparr>) (c2 # cs2))
            - of_int (uint (savedRuntime s) + (nowSession c1 - runtimeStart s)
                        + (nowReport (last (c2 # cs2)) - nowSession c2))
                / of_int (stop s - start s) * 100\<bar>
           \<le> of_int (uint (savedRuntime s) + (nowSession c1 - runtimeStart s)
                        + (nowReport (last (c2 # cs2)) - nowSession c2))
                / of_int (stop s - start s) * 100 / 2 ^ 21
       \<and> (chargeProgress (ticks ((ticks s (c1 # cs1))\<lparr>disable := False\<rparr>) (c2 # cs2)) < 2 ^ 31 \<longrightarrow>
            last [v. virtualWrite PROGRESS_BAR v
                    \<leftarrow> ticks_calls ((ticks s (c1 # cs1))\<lparr>disable := False\<rparr>) (c2 # cs2)]
              = PInt \<lfloor>chargeProgress
                        (ticks ((ticks s (c1 # cs1))\<lparr>disable := False\<rparr>) (c2 # cs2))\<rfloor>)"
proof -
  define T1 where "T1 = nowSession c1 - runtimeStart s"
  define T2 where "T2 = nowReport (last (c2 # cs2)) - nowSession c2"
  have T: "0 \<le> T1" "0 \<le> T2" "uint (savedRuntime s) + T1 + T2 < 2 ^ 32"
    using assms(4,5,6) by (simp_all add: T1_def T2_def)
  let ?d = "fst (powerManagement s c1)"
  have d: "disable ?d" "chargeState ?d = S_DISABLED" "\<not> counterEnabled ?d"
    "savedRuntime ?d = savedRuntime s + word_of_int T1"
    "start ?d = start s" "stop ?d = stop s"
    using assms(1,2)
    by (simp_all add: T1_def pm_frame pm_chargeState pm_counterEnabled pm_savedRuntime)
  define e where "e = ticks s (c1 # cs1)"
  have e: "savedRuntime e = savedRuntime s + word_of_int T1"
    "start e = start s" "stop e = stop s" "chargeState e = S_DISABLED"
    using ticks_disabled [OF d(1,2), of cs1] d(4,5,6) by (simp_all add: e_def)
  have ce: "\<not> counterEnabled e"
  proof (cases cs1 rule: rev_cases)
    case Nil
    then show ?thesis using d(3) by (simp add: e_def)
  next
    case (snoc bs b)
    have "disable (ticks ?d bs)"
      using ticks_disabled [OF d(1,2), of bs] by simp
    then show ?thesis
      by (simp add: e_def snoc ticks_snoc pm_counterEnabled)
  qed
  have fold: "uint (savedRuntime e) = uint (savedRuntime s) + T1"
  proof -
    have "savedRuntime e = word_of_int T1 + savedRuntime s" by (simp add: e(1))
    moreover have "T1 + uint (savedRuntime s) < 2 ^ 32" using T by linarith
    ultimately show ?thesis using uint_no_wrap [OF T(1), of "savedRuntime s"] by simp
  qed
  define e' where "e' = e\<lparr>disable := False\<rparr>"
  define r where "r = fst (powerManagement e' c2)"
  have c2: "start s \<le> currentTimeinSecs c2 \<and> currentTimeinSecs c2 < stop s"
    using assms(3) by simp
  have r: "\<not> disable r" "counterEnabled r" "runtimeStart r = nowSession c2"
    "savedRuntime r = savedRuntime s + word_of_int T1"
    "start r = start s" "stop r = stop s" "chargeState r = S_CHARGING"
    "chargeProgress r = progress_percent
        (word_of_int (nowReport c2 - nowSession c2) + (savedRuntime s + word_of_int T1))
        (int32 (stop s - start s))"
    using c2 e ce
    by (simp_all add: r_def e'_def pm_frame pm_counterEnabled pm_runtimeStart pm_savedRuntime
        pm_chargeState pm_chargeProgress)
  define f where "f = ticks e' (c2 # cs2)"
  have f_r: "f = ticks r cs2" by (simp add: f_def r_def)
  have fin: "chargeState f = S_CHARGING
       \<and> chargeProgress f =
           progress_percent (word_of_int T2 + (savedRuntime s + word_of_int T1))
             (int32 (stop s - start s))"
  proof (cases "cs2 = []")
    case True
    then show ?thesis using r(7,8) by (simp add: f_r T2_def)
  next
    case False
    have "\<forall>c\<in>set cs2. start r \<le> currentTimeinSecs c \<and> currentTimeinSecs c < stop r"
      using assms(3) by (simp add: r(5,6))
    from ticks_in_window_progress [OF r(1,2) False this] show ?thesis
      using False by (simp add: f_r T2_def r(3,4,5,6))
  qed
  have sum: "word_of_int T2 + (savedRuntime s + word_of_int T1)
               = (word_of_int (T1 + T2) + savedRuntime s :: 32 word)"
    by (simp add: algebra_simps)
  have dpos: "0 < stop s - start s" using c2 by linarith
  have T12: "0 \<le> T1 + T2" "T1 + T2 + uint (savedRuntime s) < 2 ^ 32"
    using T by linarith+
  have tot: "T1 + T2 + uint (savedRuntime s) = uint (savedRuntime s) + T1 + T2" by simp
  have bound: "\<bar>chargeProgress f - of_int (uint (savedRuntime s) + T1 + T2)
                / of_int (stop s - start s) * 100\<bar>
           \<le> of_int (uint (savedRuntime s) + T1 + T2) / of_int (stop s - start s) * 100 / 2 ^ 21"
    using progress_percent_exact [OF T12 dpos assms(7)] fin
    unfolding sum tot by simp
  have cp0: "0 \<le> chargeProgress f"
  proof -
    define X :: rat where "X = of_int (uint (savedRuntime s) + T1 + T2)
                / of_int (stop s - start s) * 100"
    have n0: "0 \<le> uint (savedRuntime s) + T1 + T2"
      using T(1,2) uint_ge_0 [of "savedRuntime s"] by linarith
    have "(0 :: rat) \<le> of_int (uint (savedRuntime s) + T1 + T2)"
      using n0 by (simp only: of_int_0_le_iff)
    moreover have "(0 :: rat) < of_int (stop s - start s)"
      using dpos by (simp only: of_int_0_less_iff)
    ultimately have "0 \<le> X"
      unfolding X_def by (intro mult_nonneg_nonneg divide_nonneg_pos) simp_all
    moreover have "X / 2 ^ 21 \<le> X" using \<open>0 \<le> X\<close> by (simp add: field_simps)
    moreover have "\<bar>chargeProgress f - X\<bar> \<le> X / 2 ^ 21" using bound by (simp only: X_def)
    ultimately show ?thesis by linarith
  qed
  have call: "last [v. virtualWrite PROGRESS_BAR v \<leftarrow> ticks_calls e' (c2 # cs2)]
              = PInt \<lfloor>chargeProgress f\<rfloor>" if "chargeProgress f < 2 ^ 31"
  proof -
    have 1: "\<not> disable e'" by (simp add: e'_def)
    have 2: "c2 # cs2 \<noteq> []" by simp
    have 3: "start e' \<le> currentTimeinSecs (last (c2 # cs2))
         \<and> currentTimeinSecs (last (c2 # cs2)) < stop e'"
    proof -
      have "last (c2 # cs2) \<in> set (c2 # cs2)" by (rule last_in_set [OF 2])
      with assms(3) have "start s \<le> currentTimeinSecs (last (c2 # cs2))
         \<and> currentTimeinSecs (last (c2 # cs2)) < stop s" by blast
      then show ?thesis by (simp only: e'_def e(2,3)) (simp add: e(2,3))
    qed
    show ?thesis
      using last_progress_call [OF 1 2 3] float_to_int_Some [OF cp0 that]
      by (simp only: f_def [symmetric] option.case)
  qed
  show ?thesis
    using fold fin bound call
    unfolding e_def [symmetric] e'_def [symmetric] f_def [symmetric] T1_def [symmetric]
      T2_def [symmetric]
    by blast
qed

theorem C4_carry_over_witness:
  "uint (savedRuntime (ticks
      ((fst (powerManagement initial_state
          \<lparr>hour = 0, minute = 0, second = 0, nowSession = 1468800000, nowReport = 1468800000\<rparr>))
         \<lparr>disable := True\<rparr>)
      [\<lparr>hour = 1, minute = 0, second = 0, nowSession = 1468803600, nowReport = 1468803600\<rparr>,
       \<lparr>hour = 1, minute = 0, second = 5, nowSession = 1468803605, nowReport = 1468803605\<rparr>]))
     = 3600
 \<and> \<bar>chargeProgress (ticks
      ((ticks
         ((fst (powerManagement initial_state
            \<lparr>hour = 0, minute = 0, second = 0, nowSession = 1468800000, nowReport = 1468800000\<rparr>))
           \<lparr>disable := True\<rparr>)
         [\<lparr>hour = 1, minute = 0, second = 0, nowSession = 1468803600, nowReport = 1468803600\<rparr>,
          \<lparr>hour = 1, minute = 0, second = 5, nowSession = 1468803605, nowReport = 1468803605\<rparr>])
        \<lparr>disable := False\<rparr>)
      [\<lparr>hour = 2, minute = 0, second = 0, nowSession = 1468807200, nowReport = 1468807200\<rparr>,
       \<lparr>hour = 3, minute = 0, second = 0, nowSession = 1468810800, nowReport = 1468810800\<rparr>])
     - 100 / 3\<bar> \<le> 100 / 3 / 2 ^ 21
 \<and> last [v. virtualWrite PROGRESS_BAR v \<leftarrow> ticks_calls
      ((ticks
         ((fst (powerManagement initial_state
            \<lparr>hour = 0, minute = 0, second = 0, nowSession = 1468800000, nowReport = 1468800000\<rparr>))
           \<lparr>disable := True\<rparr>)
         [\<lparr>hour = 1, minute = 0, second = 0, nowSession = 1468803600, nowReport = 1468803600\<rparr>,
          \<lparr>hour = 1, minute = 0, second = 5, nowSession = 1468803605, nowReport = 1468803605\<rparr>])
        \<lparr>disable := False\<rparr>)
      [\<lparr>hour = 2, minute = 0, second = 0, nowSession = 1468807200, nowReport = 1468807200\<rparr>,
       \<lparr>hour = 3, minute = 0, second = 0, nowSession = 1468810800, nowReport = 1468810800\<rparr>]]
     = PInt 33"
proof -
  define s where "s = (fst (powerManagement initial_state
          \<lparr>hour = 0, minute = 0, second = 0, nowSession = 1468800000, nowReport = 1468800000\<rparr>))
         \<lparr>disable := True\<rparr>"
  define c1 where "c1 = \<lparr>hour = 1, minute = 0, second = 0, nowSession = 1468803600,
         nowReport = 1468803600\<rparr>"
  define c1b where "c1b = \<lparr>hour = 1, minute = 0, second = 5, nowSession = 1468803605,
         nowReport = 1468803605\<rparr>"
  define c2 where "c2 = \<lparr>hour = 2, minute = 0, second = 0, nowSession = 1468807200,
         nowReport = 1468807200\<rparr>"
  define c3 where "c3 = \<lparr>hour = 3, minute = 0, second = 0, nowSession = 1468810800,
         nowReport = 1468810800\<rparr>"
  define f where "f = ticks ((ticks s [c1, c1b])\<lparr>disable := False\<rparr>) [c2, c3]"
  have s: "chargeState s = S_CHARGING" "disable s" "start s = 0" "stop s = 21600"
    "runtimeStart s = 1468800000" "savedRuntime s = 0"
    by (simp_all add: s_def pm_chargeState pm_frame pm_runtimeStart pm_savedRuntime
        initial_state_def currentTimeinSecs_def)
  have c: "nowSession c1 = 1468803600" "nowSession c2 = 1468807200"
    "nowReport (last [c2, c3]) = 1468810800"
    by (simp_all add: c1_def c2_def c3_def)
  have h3: "\<forall>c\<in>set [c2, c3]. start s \<le> currentTimeinSecs c \<and> currentTimeinSecs c < stop s"
    by (simp add: s(3,4) c2_def c3_def currentTimeinSecs_def)
  have h4: "0 \<le> nowSession c1 - runtimeStart s" unfolding s(5) c by simp
  have h5: "0 \<le> nowReport (last [c2, c3]) - nowSession c2" unfolding c by simp
  have h6: "uint (savedRuntime s) + (nowSession c1 - runtimeStart s)
           + (nowReport (last [c2, c3]) - nowSession c2) < 2 ^ 32"
    unfolding s(5,6) c by simp
  have h7: "stop s - start s < 2 ^ 31" by (simp add: s(3,4))
  have v1: "uint (savedRuntime s) + (nowSession c1 - runtimeStart s) = 3600"
    unfolding s(5,6) c by simp
  have v2: "(of_int (uint (savedRuntime s) + (nowSession c1 - runtimeStart s)
                        + (nowReport (last [c2, c3]) - nowSession c2))
                / of_int (stop s - start s) * 100 :: rat) = 100 / 3"
    unfolding s(3,4,5,6) c by simp
  note C4 = C4_carry_over [OF s(1,2) h3 h4 h5 h6 h7, of "[c1b]", folded f_def]
  from C4 have "uint (savedRuntime (ticks s [c1, c1b]))
      = uint (savedRuntime s) + (nowSession c1 - runtimeStart s)" by blast
  then have fold: "uint (savedRuntime (ticks s [c1, c1b])) = 3600" by (simp only: v1)
  from C4 have "\<bar>chargeProgress f
            - of_int (uint (savedRuntime s) + (nowSession c1 - runtimeStart s)
                        + (nowReport (last [c2, c3]) - nowSession c2))
                / of_int (stop s - start s) * 100\<bar>
           \<le> of_int (uint (savedRuntime s) + (nowSession c1 - runtimeStart s)
                        + (nowReport (last [c2, c3]) - nowSession c2))
                / of_int (stop s - start s) * 100 / 2 ^ 21" by blast
  then have bound: "\<bar>chargeProgress f - 100 / 3\<bar> \<le> 100 / 3 / 2 ^ 21" by (simp only: v2)
  have eps: "(100 / 3 / 2 ^ 21 :: rat) \<le> 1 / 3" by simp
  from bound have b2: "chargeProgress f - 100 / 3 \<le> 100 / 3 / 2 ^ 21"
    "- (chargeProgress f - 100 / 3) \<le> 100 / 3 / 2 ^ 21"
    by (simp_all only: abs_le_iff)
  have rng: "33 \<le> chargeProgress f" "chargeProgress f < 34"
    using b2 eps by linarith+
  then have fl: "\<lfloor>chargeProgress f\<rfloor> = 33"
    by (intro floor_unique) simp_all
  have "chargeProgress f < 2 ^ 31" using rng(2) by simp
  with C4 have "last [v. virtualWrite PROGRESS_BAR v
                    \<leftarrow> ticks_calls ((ticks s [c1, c1b])\<lparr>disable := False\<rparr>) [c2, c3]]
              = PInt \<lfloor>chargeProgress f\<rfloor>" by blast
  then have call: "last [v. virtualWrite PROGRESS_BAR v
                    \<leftarrow> ticks_calls ((ticks s [c1, c1b])\<lparr>disable := False\<rparr>) [c2, c3]]
              = PInt 33" by (simp only: fl)
  show ?thesis
    using fold bound call unfolding f_def s_def c1_def c1b_def c2_def c3_def by blast
qed

text \<open>
  C6. The claim: while the state is \<open>S_CHARGING\<close> the reported progress equals
  \<open>(now - sessionStart + savedSeconds) / (stop - start) \<times> 100\<close>. The sketch computes the
  numerator in \<^verbatim>\<open>uint32_t\<close>, so the equation fails when the clock reads less than
  \<^verbatim>\<open>runtimeStart\<close>: session started at 02:00:00 (clock 1468807200), next tick after the
  clock was set back five seconds (01:59:55, clock 1468807195). The state is
  \<open>S_CHARGING\<close>, the formula gives \<open>-5/216\<close>, and the sketch stores a progress of more
  than 19884000 per cent.
\<close>

theorem C6_counterexample:
  "chargeState (fst (powerManagement
      (fst (powerManagement initial_state
         \<lparr>hour = 2, minute = 0, second = 0, nowSession = 1468807200, nowReport = 1468807200\<rparr>))
      \<lparr>hour = 1, minute = 59, second = 55, nowSession = 1468807195, nowReport = 1468807195\<rparr>))
     = S_CHARGING
 \<and> spec_progress_percent (fst (powerManagement
      (fst (powerManagement initial_state
         \<lparr>hour = 2, minute = 0, second = 0, nowSession = 1468807200, nowReport = 1468807200\<rparr>))
      \<lparr>hour = 1, minute = 59, second = 55, nowSession = 1468807195, nowReport = 1468807195\<rparr>))
      1468807195 = - (5 / 216)
 \<and> 19884000 \<le> chargeProgress (fst (powerManagement
      (fst (powerManagement initial_state
         \<lparr>hour = 2, minute = 0, second = 0, nowSession = 1468807200, nowReport = 1468807200\<rparr>))
      \<lparr>hour = 1, minute = 59, second = 55, nowSession = 1468807195, nowReport = 1468807195\<rparr>))"
proof -
  define s1 where "s1 = fst (powerManagement initial_state
         \<lparr>hour = 2, minute = 0, second = 0, nowSession = 1468807200, nowReport = 1468807200\<rparr>)"
  define c where "c = \<lparr>hour = 1, minute = 59, second = 55, nowSession = 1468807195,
         nowReport = 1468807195\<rparr>"
  have s1: "\<not> disable s1" "start s1 = 0" "stop s1 = 21600" "counterEnabled s1"
    "runtimeStart s1 = 1468807200" "savedRuntime s1 = 0"
    by (simp_all add: s1_def pm_frame pm_counterEnabled pm_runtimeStart pm_savedRuntime
        initial_state_def currentTimeinSecs_def)
  have st: "chargeState (fst (powerManagement s1 c)) = S_CHARGING"
    by (simp add: pm_chargeState s1 c_def currentTimeinSecs_def)
  have f: "runtimeStart (fst (powerManagement s1 c)) = 1468807200"
    "savedRuntime (fst (powerManagement s1 c)) = 0"
    "start (fst (powerManagement s1 c)) = 0" "stop (fst (powerManagement s1 c)) = 21600"
    by (simp_all add: pm_frame pm_runtimeStart pm_savedRuntime s1 c_def currentTimeinSecs_def)
  have sp: "spec_progress_percent (fst (powerManagement s1 c)) 1468807195 = - (5 / 216)"
    by (simp add: spec_progress_percent_def f)
  have i32: "int32 21600 = 21600" by (rule int32_id) simp_all
  have w: "start s1 \<le> currentTimeinSecs c" "currentTimeinSecs c < stop s1"
    by (simp_all add: s1 c_def currentTimeinSecs_def)
  have nr: "nowReport c = 1468807195" by (simp add: c_def)
  have cp0: "chargeProgress (fst (powerManagement s1 c)) =
      progress_percent
        (word_of_int (nowReport c - runtimeStart (fst (powerManagement s1 c)))
           + savedRuntime (fst (powerManagement s1 c)))
        (int32 (stop s1 - start s1))"
    using s1(1) w by (simp add: pm_chargeProgress)
  have cp: "chargeProgress (fst (powerManagement s1 c)) = progress_percent (- 5) 21600"
    unfolding cp0 f nr s1(2,3) by (simp add: i32)
  have u: "(of_nat (unat (- 5 :: 32 word)) :: rat) = 4294967291" by simp
  have "\<bar>progress_percent (- 5) 21600 - 4294967291 / of_int 21600 * 100\<bar>
          \<le> 4294967291 / of_int 21600 * 100 / 2 ^ 21"
    using progress_percent_error [of 21600 "- 5"] unfolding u by simp
  then have "- (progress_percent (- 5) 21600 - 4294967291 / of_int 21600 * 100)
          \<le> 4294967291 / of_int 21600 * 100 / 2 ^ 21"
    by (simp only: abs_le_iff)
  moreover have "(19884000 :: rat)
          \<le> 4294967291 / of_int 21600 * 100 - 4294967291 / of_int 21600 * 100 / 2 ^ 21"
    by simp
  ultimately have "19884000 \<le> progress_percent (- 5) 21600"
    by linarith
  then have lo: "19884000 \<le> chargeProgress (fst (powerManagement s1 c))"
    by (simp only: cp)
  show ?thesis
    using st sp lo unfolding s1_def c_def by blast
qed

text \<open>
  C6, amended. In a tick that ends in \<open>S_CHARGING\<close>, if the clock does not read less
  than \<^verbatim>\<open>runtimeStart\<close>, the seconds since \<^verbatim>\<open>runtimeStart\<close> plus \<^verbatim>\<open>savedRuntime\<close> are below
  \<open>2\<^sup>3\<^sup>2\<close> and \<open>stop - start\<close> is below \<open>2\<^sup>3\<^sup>1\<close>, then \<^verbatim>\<open>state.chargeProgress\<close> differs from
  \<open>(now - runtimeStart + savedRuntime) / (stop - start) \<times> 100\<close> by at most the fraction
  \<open>2\<^sup>-\<^sup>2\<^sup>1\<close> of it (the four roundings of line 336), and the progress bar gets its
  integer part when that fits an \<^verbatim>\<open>int\<close>. With the window 00:00--06:00, nothing saved
  and a session that began at midnight, the tick at 02:00:00 stores
  \<open>4369067/131072 = 33.33...\<close> and writes 33.
\<close>

theorem C6_charging_progress:
  assumes "chargeState (fst (powerManagement s c)) = S_CHARGING"
    and "0 \<le> nowReport c - runtimeStart (fst (powerManagement s c))"
    and "nowReport c - runtimeStart (fst (powerManagement s c))
           + uint (savedRuntime (fst (powerManagement s c))) < 2 ^ 32"
    and "stop s - start s < 2 ^ 31"
  shows "\<bar>chargeProgress (fst (powerManagement s c))
            - spec_progress_percent (fst (powerManagement s c)) (nowReport c)\<bar>
           \<le> spec_progress_percent (fst (powerManagement s c)) (nowReport c) / 2 ^ 21
       \<and> (chargeProgress (fst (powerManagement s c)) < 2 ^ 31 \<longrightarrow>
            [v. virtualWrite PROGRESS_BAR v \<leftarrow> snd (powerManagement s c)] =
              [PInt \<lfloor>chargeProgress (fst (powerManagement s c))\<rfloor>])"
proof -
  define s' where "s' = fst (powerManagement s c)"
  define E where "E = nowReport c - runtimeStart s'"
  have w: "\<not> disable s" "start s \<le> currentTimeinSecs c \<and> currentTimeinSecs c < stop s"
    using assms(1) by (simp_all add: pm_chargeState split: if_splits)
  have E: "0 \<le> E" "E + uint (savedRuntime s') < 2 ^ 32"
    using assms(2,3) by (simp_all add: E_def s'_def)
  have d: "0 < stop s - start s" using w(2) by linarith
  have fr: "start s' = start s" "stop s' = stop s"
    by (simp_all add: s'_def pm_frame)
  have cp: "chargeProgress s' =
      progress_percent (word_of_int E + savedRuntime s') (int32 (stop s - start s))"
    using w by (simp add: s'_def E_def pm_chargeProgress)
  have sp: "spec_progress_percent s' (nowReport c)
        = of_int (E + uint (savedRuntime s')) / of_int (stop s - start s) * 100"
    by (simp only: spec_progress_percent_def fr E_def)
  have bound: "\<bar>chargeProgress s' - spec_progress_percent s' (nowReport c)\<bar>
               \<le> spec_progress_percent s' (nowReport c) / 2 ^ 21"
    unfolding cp sp by (rule progress_percent_exact [OF E d assms(4)])
  have sp0: "0 \<le> spec_progress_percent s' (nowReport c)"
  proof -
    have "0 \<le> E + uint (savedRuntime s')"
      using E(1) uint_ge_0 [of "savedRuntime s'"] by linarith
    then have "(0 :: rat) \<le> of_int (E + uint (savedRuntime s'))"
      by (simp only: of_int_0_le_iff)
    moreover have "(0 :: rat) < of_int (stop s - start s)"
      using d by (simp only: of_int_0_less_iff)
    ultimately show ?thesis
      unfolding sp by (intro mult_nonneg_nonneg divide_nonneg_pos) simp_all
  qed
  have cp0: "0 \<le> chargeProgress s'"
  proof -
    have "spec_progress_percent s' (nowReport c) / 2 ^ 21 \<le> spec_progress_percent s' (nowReport c)"
      using sp0 by (simp add: field_simps)
    with bound show ?thesis by linarith
  qed
  have call: "[v. virtualWrite PROGRESS_BAR v \<leftarrow> snd (powerManagement s c)] =
              [PInt \<lfloor>chargeProgress s'\<rfloor>]" if "chargeProgress s' < 2 ^ 31"
    using pm_progress_call [OF w] float_to_int_Some [OF cp0 that]
    by (simp only: s'_def [symmetric] option.case)
  show ?thesis
    using bound call unfolding s'_def by blast
qed

theorem C6_charging_progress_witness:
  "chargeState (fst (powerManagement
      (fst (powerManagement initial_state
         \<lparr>hour = 0, minute = 0, second = 0, nowSession = 1468800000, nowReport = 1468800000\<rparr>))
      \<lparr>hour = 2, minute = 0, second = 0, nowSession = 1468807200, nowReport = 1468807200\<rparr>))
     = S_CHARGING
 \<and> chargeProgress (fst (powerManagement
      (fst (powerManagement initial_state
         \<lparr>hour = 0, minute = 0, second = 0, nowSession = 1468800000, nowReport = 1468800000\<rparr>))
      \<lparr>hour = 2, minute = 0, second = 0, nowSession = 1468807200, nowReport = 1468807200\<rparr>))
     = 4369067 / 131072
 \<and> [v. virtualWrite PROGRESS_BAR v \<leftarrow> snd (powerManagement
      (fst (powerManagement initial_state
         \<lparr>hour = 0, minute = 0, second = 0, nowSession = 1468800000, nowReport = 1468800000\<rparr>))
      \<lparr>hour = 2, minute = 0, second = 0, nowSession = 1468807200, nowReport = 1468807200\<rparr>)]
     = [PInt 33]
 \<and> \<bar>chargeProgress (fst (powerManagement
      (fst (powerManagement initial_state
         \<lparr>hour = 0, minute = 0, second = 0, nowSession = 1468800000, nowReport = 1468800000\<rparr>))
      \<lparr>hour = 2, minute = 0, second = 0, nowSession = 1468807200, nowReport = 1468807200\<rparr>))
      - 100 / 3\<bar> \<le> 100 / 3 / 2 ^ 21"
proof -
  define s1 where "s1 = fst (powerManagement initial_state
         \<lparr>hour = 0, minute = 0, second = 0, nowSession = 1468800000, nowReport = 1468800000\<rparr>)"
  define c where "c = \<lparr>hour = 2, minute = 0, second = 0, nowSession = 1468807200,
         nowReport = 1468807200\<rparr>"
  have s1: "\<not> disable s1" "start s1 = 0" "stop s1 = 21600" "counterEnabled s1"
    "runtimeStart s1 = 1468800000" "savedRuntime s1 = 0"
    by (simp_all add: s1_def pm_frame pm_counterEnabled pm_runtimeStart pm_savedRuntime
        initial_state_def currentTimeinSecs_def)
  have st: "chargeState (fst (powerManagement s1 c)) = S_CHARGING"
    by (simp add: pm_chargeState s1 c_def currentTimeinSecs_def)
  have f: "runtimeStart (fst (powerManagement s1 c)) = 1468800000"
    "savedRuntime (fst (powerManagement s1 c)) = 0"
    "start (fst (powerManagement s1 c)) = 0" "stop (fst (powerManagement s1 c)) = 21600"
    "nowReport c = 1468807200"
    by (simp_all add: pm_frame pm_runtimeStart pm_savedRuntime s1 c_def currentTimeinSecs_def)
  have h2: "0 \<le> nowReport c - runtimeStart (fst (powerManagement s1 c))"
    unfolding f by simp
  have h3: "nowReport c - runtimeStart (fst (powerManagement s1 c))
           + uint (savedRuntime (fst (powerManagement s1 c))) < 2 ^ 32"
    unfolding f by simp
  have h4: "stop s1 - start s1 < 2 ^ 31" by (simp add: s1)
  have sp: "spec_progress_percent (fst (powerManagement s1 c)) (nowReport c) = 100 / 3"
    by (simp add: spec_progress_percent_def f)
  note C6 = C6_charging_progress [OF st h2 h3 h4]
  from C6 have "\<bar>chargeProgress (fst (powerManagement s1 c))
            - spec_progress_percent (fst (powerManagement s1 c)) (nowReport c)\<bar>
           \<le> spec_progress_percent (fst (powerManagement s1 c)) (nowReport c) / 2 ^ 21" by blast
  then have bound: "\<bar>chargeProgress (fst (powerManagement s1 c)) - 100 / 3\<bar>
      \<le> 100 / 3 / 2 ^ 21" by (simp only: sp)
  have eps: "(100 / 3 / 2 ^ 21 :: rat) \<le> 1 / 3" by simp
  from bound have b2: "chargeProgress (fst (powerManagement s1 c)) - 100 / 3 \<le> 100 / 3 / 2 ^ 21"
    "- (chargeProgress (fst (powerManagement s1 c)) - 100 / 3) \<le> 100 / 3 / 2 ^ 21"
    by (simp_all only: abs_le_iff)
  have rng: "33 \<le> chargeProgress (fst (powerManagement s1 c))"
    "chargeProgress (fst (powerManagement s1 c)) < 34"
    using b2 eps by linarith+
  then have fl: "\<lfloor>chargeProgress (fst (powerManagement s1 c))\<rfloor> = 33"
    by (intro floor_unique) simp_all
  have "chargeProgress (fst (powerManagement s1 c)) < 2 ^ 31" using rng(2) by simp
  with C6 have "[v. virtualWrite PROGRESS_BAR v \<leftarrow> snd (powerManagement s1 c)] =
              [PInt \<lfloor>chargeProgress (fst (powerManagement s1 c))\<rfloor>]" by blast
  then have call: "[v. virtualWrite PROGRESS_BAR v \<leftarrow> snd (powerManagement s1 c)] = [PInt 33]"
    by (simp only: fl)
  have i32: "int32 21600 = 21600" by (rule int32_id) simp_all
  have w: "start s1 \<le> currentTimeinSecs c" "currentTimeinSecs c < stop s1"
    by (simp_all add: s1 c_def currentTimeinSecs_def)
  have cp0: "chargeProgress (fst (powerManagement s1 c)) =
      progress_percent
        (word_of_int (nowReport c - runtimeStart (fst (powerManagement s1 c)))
           + savedRuntime (fst (powerManagement s1 c)))
        (int32 (stop s1 - start s1))"
    using s1(1) w by (simp add: pm_chargeProgress)
  have cp: "chargeProgress (fst (powerManagement s1 c)) = 4369067 / 131072"
    unfolding cp0 f s1(2,3) by (simp add: i32 progress_percent_example)
  show ?thesis
    using st cp call bound unfolding s1_def c_def by blast
qed

end
